theory Spec2Isabelle
  imports Main "HOL-Library.Word"
begin

section \<open>Python values: exceptions, bytes, integers\<close>

text \<open>
  The exceptions the program can raise. \<open>ValueError\<close>, \<open>TypeError\<close> and
  \<open>NotImplementedError\<close> are the ones the field-element tests expect;
  \<open>CurveMembershipError\<close> and \<open>FormatError\<close> are error kinds of the spec (section 7);
  \<open>IndexError\<close>, \<open>OverflowError\<close> and \<open>AttributeError\<close> are raised by Python
  itself (indexing an empty byte string, \<open>int.to_bytes\<close> out of range, reading an
  attribute of \<open>None\<close>).
\<close>

datatype error =
    ValueError
  | TypeError
  | NotImplementedError
  | CurveMembershipError
  | FormatError
  | IndexError
  | OverflowError
  | AttributeError

type_synonym byte = "8 word"

text \<open>Sequencing of computations that may raise: the first exception wins.\<close>

definition bindE :: "error + 'a \<Rightarrow> ('a \<Rightarrow> error + 'b) \<Rightarrow> error + 'b" where
  "bindE m f = (case m of Inl e \<Rightarrow> Inl e | Inr v \<Rightarrow> f v)"

text \<open>
  \<open>n.to_bytes(length, "big")\<close>: the big-endian digits of \<open>n\<close> in base 256, and an
  \<open>OverflowError\<close> when \<open>n\<close> is negative or does not fit.
\<close>

fun be_digits :: "nat \<Rightarrow> int \<Rightarrow> byte list" where
  "be_digits 0 n = []"
| "be_digits (Suc l) n = be_digits l (n div 256) @ [word_of_int (n mod 256)]"

definition to_bytes :: "int \<Rightarrow> nat \<Rightarrow> error + byte list" where
  "to_bytes n l = (if n < 0 \<or> 256 ^ l \<le> n then Inl OverflowError else Inr (be_digits l n))"

text \<open>\<open>int.from_bytes(bs, "big")\<close>.\<close>

definition from_bytes :: "byte list \<Rightarrow> int" where
  "from_bytes bs = foldl (\<lambda>acc b. acc * 256 + uint b) 0 bs"

text \<open>\<open>bytes([...])\<close>: every item must be in \<open>range(256)\<close>.\<close>

definition bytes_of :: "int list \<Rightarrow> error + byte list" where
  "bytes_of xs = (if \<forall>x \<in> set xs. 0 \<le> x \<and> x < 256 then Inr (map word_of_int xs) else Inl ValueError)"

text \<open>\<open>bs[0]\<close>.\<close>

definition first_byte :: "byte list \<Rightarrow> error + byte" where
  "first_byte bs = (case bs of [] \<Rightarrow> Inl IndexError | b # _ \<Rightarrow> Inr b)"

text \<open>
  The built-in \<open>pow(base, exp, mod)\<close> for a non-negative exponent and a positive modulus,
  the only way the program calls it.
\<close>

definition pow_mod :: "int \<Rightarrow> int \<Rightarrow> int \<Rightarrow> int" where
  "pow_mod b e m = (b ^ nat e) mod m"

section \<open>Curve constants\<close>

definition A :: int where
  "A = 0"

definition B :: int where
  "B = 7"

definition P :: int where
  "P = 2 ^ 256 - 2 ^ 32 - 2 ^ 9 - 2 ^ 8 - 2 ^ 7 - 2 ^ 6 - 2 ^ 4 - 1"

definition N :: int where
  "N = 0xFFFFFFFFFFFFFFFFFFFFFFFFFFFFFFFEBAAEDCE6AF48A03BBFD25E8CD0364141"

section \<open>FieldElement\<close>

record field_element =
  number :: int
  prime :: int

text \<open>
  Modelled from the spec: the class \<open>FieldElement\<close> (module \<open>field\<close>, imported by
  \<open>secp256k1.py\<close>) is not among the source files. Spec 4.1: construction fails when
  \<open>number\<close> is outside \<open>[0, prime)\<close> (a \<open>ValueError\<close> in \<open>test_number_range\<close>);
  \<open>add\<close>, \<open>sub\<close>, \<open>mul\<close> and \<open>div\<close> fail on operands of different primes (a
  \<open>TypeError\<close> in the tests) and otherwise reduce the integer result modulo \<open>prime\<close>;
  \<open>pow\<close> first normalises the exponent with \<open>e mod (prime - 1)\<close>; \<open>div\<close> multiplies
  by \<open>other ^ (prime - 2)\<close>; equality is structural.
\<close>

definition FieldElement :: "int \<Rightarrow> int \<Rightarrow> error + field_element" where
  "FieldElement n p =
     (if n < 0 \<or> p \<le> n then Inl ValueError else Inr \<lparr>number = n, prime = p\<rparr>)"

definition fe_add :: "field_element \<Rightarrow> field_element \<Rightarrow> error + field_element" where
  "fe_add a b =
     (if prime a \<noteq> prime b then Inl TypeError
      else FieldElement ((number a + number b) mod prime a) (prime a))"

definition fe_sub :: "field_element \<Rightarrow> field_element \<Rightarrow> error + field_element" where
  "fe_sub a b =
     (if prime a \<noteq> prime b then Inl TypeError
      else FieldElement ((number a - number b) mod prime a) (prime a))"

definition fe_mul :: "field_element \<Rightarrow> field_element \<Rightarrow> error + field_element" where
  "fe_mul a b =
     (if prime a \<noteq> prime b then Inl TypeError
      else FieldElement ((number a * number b) mod prime a) (prime a))"

definition fe_pow :: "field_element \<Rightarrow> int \<Rightarrow> error + field_element" where
  "fe_pow a e =
     FieldElement (pow_mod (number a) (e mod (prime a - 1)) (prime a)) (prime a)"

definition fe_div :: "field_element \<Rightarrow> field_element \<Rightarrow> error + field_element" where
  "fe_div a b =
     (if prime a \<noteq> prime b then Inl TypeError
      else FieldElement
             ((number a * pow_mod (number b) (prime a - 2) (prime a)) mod prime a) (prime a))"

definition fe_eq :: "field_element \<Rightarrow> field_element \<Rightarrow> bool" where
  "fe_eq a b \<longleftrightarrow> number a = number b \<and> prime a = prime b"

section \<open>S256FieldElement\<close>

text \<open>
  \<open>S256FieldElement(number, prime=None)\<close>: the second argument is whatever the caller
  passed, \<open>None\<close> by default.
\<close>

definition S256FieldElement :: "int \<Rightarrow> int option \<Rightarrow> error + field_element" where
  "S256FieldElement n p = FieldElement n P"

definition sqrt_fe :: "field_element \<Rightarrow> error + field_element" where
  "sqrt_fe v = fe_pow v ((prime v + 1) div 4)"

section \<open>Signature\<close>

record signature =
  r :: int
  s :: int

text \<open>
  One integer of the DER encoding: 32 big-endian bytes, leading zero bytes stripped, a
  zero byte put back in front when the first remaining byte has its high bit set.
\<close>

definition der_int :: "int \<Rightarrow> error + byte list" where
  "der_int n =
     bindE (to_bytes n 32) (\<lambda>full.
       let bin = dropWhile (\<lambda>b. b = 0) full in
       bindE (first_byte bin) (\<lambda>b0.
         Inr (if and b0 0x80 \<noteq> 0 then 0 # bin else bin)))"

definition der :: "signature \<Rightarrow> error + byte list" where
  "der sig =
     bindE (der_int (r sig)) (\<lambda>rbin.
     bindE (bytes_of [0x02, int (length rbin)]) (\<lambda>rhead.
       let result = rhead @ rbin in
     bindE (der_int (s sig)) (\<lambda>sbin.
     bindE (bytes_of [0x02, int (length sbin)]) (\<lambda>shead.
       let result = result @ shead @ sbin in
     bindE (bytes_of [0x30, int (length result)]) (\<lambda>head.
       Inr (head @ result))))))"

section \<open>Point\<close>

record point =
  x :: "field_element option"
  y :: "field_element option"
  a :: field_element
  b :: field_element

text \<open>
  Modelled from the spec: the class \<open>Point\<close> (module \<open>point\<close>, imported by
  \<open>secp256k1.py\<close>) is not among the source files. Spec 3 and 4.2: \<open>x = y = None\<close> is the
  point at infinity; a point with both coordinates is constructed only if
  \<open>y\<^sup>2 = x\<^sup>3 + a x + b\<close>; \<open>add\<close> fails on different curve parameters and otherwise follows
  the five cases of the spec in their order; \<open>scalar_mul\<close> is the binary double-and-add
  loop over the bits of the coefficient from the least significant one, starting from the
  point at infinity. The integer factors 2 and 3 of the doubling formula scale a field
  element (\<open>fe_scale\<close>). A point with exactly one coordinate appears nowhere in the spec;
  here its construction and its addition raise \<open>TypeError\<close>. The loop is modelled for the
  non-negative coefficients that \<open>S256Point\<close> passes to it.
\<close>

definition fe_scale :: "int \<Rightarrow> field_element \<Rightarrow> error + field_element" where
  "fe_scale c e = FieldElement ((c * number e) mod prime e) (prime e)"

definition on_curve ::
  "field_element \<Rightarrow> field_element \<Rightarrow> field_element \<Rightarrow> field_element \<Rightarrow> error + bool" where
  "on_curve xe ye ae be =
     bindE (fe_pow ye 2) (\<lambda>lhs.
     bindE (fe_pow xe 3) (\<lambda>x3.
     bindE (fe_mul ae xe) (\<lambda>ax.
     bindE (fe_add x3 ax) (\<lambda>t.
     bindE (fe_add t be) (\<lambda>rhs.
       Inr (fe_eq lhs rhs))))))"

definition Point ::
  "field_element option \<Rightarrow> field_element option \<Rightarrow> field_element \<Rightarrow> field_element
     \<Rightarrow> error + point" where
  "Point xo yo ae be =
     (case (xo, yo) of
        (None, None) \<Rightarrow> Inr \<lparr>x = None, y = None, a = ae, b = be\<rparr>
      | (Some xe, Some ye) \<Rightarrow>
          bindE (on_curve xe ye ae be) (\<lambda>ok.
            if ok then Inr \<lparr>x = Some xe, y = Some ye, a = ae, b = be\<rparr>
            else Inl CurveMembershipError)
      | _ \<Rightarrow> Inl TypeError)"

definition point_double :: "field_element \<Rightarrow> field_element \<Rightarrow> point \<Rightarrow> error + point" where
  "point_double x1 y1 p =
     bindE (fe_pow x1 2) (\<lambda>xx.
     bindE (fe_scale 3 xx) (\<lambda>xx3.
     bindE (fe_add xx3 (a p)) (\<lambda>num.
     bindE (fe_scale 2 y1) (\<lambda>den.
     bindE (fe_div num den) (\<lambda>m.
     bindE (fe_pow m 2) (\<lambda>mm.
     bindE (fe_scale 2 x1) (\<lambda>x2.
     bindE (fe_sub mm x2) (\<lambda>x3.
     bindE (fe_sub x1 x3) (\<lambda>dx.
     bindE (fe_mul m dx) (\<lambda>mdx.
     bindE (fe_sub mdx y1) (\<lambda>y3.
       Inr \<lparr>x = Some x3, y = Some y3, a = a p, b = b p\<rparr>)))))))))))"

definition point_chord ::
  "field_element \<Rightarrow> field_element \<Rightarrow> field_element \<Rightarrow> field_element \<Rightarrow> point
     \<Rightarrow> error + point" where
  "point_chord x1 y1 x2 y2 p =
     bindE (fe_sub y2 y1) (\<lambda>num.
     bindE (fe_sub x2 x1) (\<lambda>den.
     bindE (fe_div num den) (\<lambda>m.
     bindE (fe_pow m 2) (\<lambda>mm.
     bindE (fe_sub mm x1) (\<lambda>t.
     bindE (fe_sub t x2) (\<lambda>x3.
     bindE (fe_sub x1 x3) (\<lambda>dx.
     bindE (fe_mul m dx) (\<lambda>mdx.
     bindE (fe_sub mdx y1) (\<lambda>y3.
       Inr \<lparr>x = Some x3, y = Some y3, a = a p, b = b p\<rparr>)))))))))"

definition point_add :: "point \<Rightarrow> point \<Rightarrow> error + point" where
  "point_add p q =
     (if a p \<noteq> a q \<or> b p \<noteq> b q then Inl TypeError
      else case (x p, y p, x q, y q) of
        (None, None, _, _) \<Rightarrow> Inr q
      | (_, _, None, None) \<Rightarrow> Inr p
      | (Some x1, Some y1, Some x2, Some y2) \<Rightarrow>
          if fe_eq x1 x2 \<and> \<not> fe_eq y1 y2 then Inr \<lparr>x = None, y = None, a = a p, b = b p\<rparr>
          else if p = q \<and> number y1 = 0 then Inr \<lparr>x = None, y = None, a = a p, b = b p\<rparr>
          else if p = q then point_double x1 y1 p
          else point_chord x1 y1 x2 y2 p
      | _ \<Rightarrow> Inl TypeError)"

fun rmul_loop :: "nat \<Rightarrow> point \<Rightarrow> point \<Rightarrow> error + point" where
  "rmul_loop coef current result =
     (if coef = 0 then Inr result
      else
        bindE (if odd coef then point_add result current else Inr result) (\<lambda>result'.
        bindE (point_add current current) (\<lambda>current'.
          rmul_loop (coef div 2) current' result')))"

declare rmul_loop.simps [simp del]

definition point_rmul :: "nat \<Rightarrow> point \<Rightarrow> error + point" where
  "point_rmul coefficient p =
     rmul_loop coefficient p \<lparr>x = None, y = None, a = a p, b = b p\<rparr>"

section \<open>S256Point\<close>

text \<open>
  The coordinates \<open>S256Point(x, y)\<close> accepts: Python integers, or what the base class
  stores (a field element or \<open>None\<close>).
\<close>

datatype coord = IntCoord int | FieldCoord "field_element option"

definition S256Point :: "coord \<Rightarrow> coord \<Rightarrow> error + point" where
  "S256Point cx cy =
     bindE (S256FieldElement A None) (\<lambda>ae.
     bindE (S256FieldElement B None) (\<lambda>be.
       case (cx, cy) of
         (IntCoord xi, IntCoord yi) \<Rightarrow>
           bindE (S256FieldElement xi None) (\<lambda>xe.
           bindE (S256FieldElement yi None) (\<lambda>ye.
             Point (Some xe) (Some ye) ae be))
       | (FieldCoord xo, FieldCoord yo) \<Rightarrow> Point xo yo ae be
       | _ \<Rightarrow> Inl TypeError))"

definition S256Point_rmul :: "int \<Rightarrow> point \<Rightarrow> error + point" where
  "S256Point_rmul coefficient p = point_rmul (nat (coefficient mod N)) p"

text \<open>The generator, as the module constructs it when it is loaded.\<close>

definition Gx :: int where
  "Gx = 0x79BE667EF9DCBBAC55A06295CE870B07029BFCDB2DCE28D959F2815B16F81798"

definition Gy :: int where
  "Gy = 0x483ADA7726A3C4655DA4FBFC0E1108A8FD17B448A68554199C47D08FFB10D4B8"

definition G :: point where
  "G = \<lparr>x = Some \<lparr>number = Gx, prime = P\<rparr>, y = Some \<lparr>number = Gy, prime = P\<rparr>,
         a = \<lparr>number = A, prime = P\<rparr>, b = \<lparr>number = B, prime = P\<rparr>\<rparr>"

definition verify :: "point \<Rightarrow> int \<Rightarrow> signature \<Rightarrow> error + bool" where
  "verify self z sig =
     (let s_inv = pow_mod (s sig) (N - 2) N;
          u = (z * s_inv) mod N;
          v = (r sig * s_inv) mod N
      in bindE (S256Point_rmul u G) (\<lambda>uG.
         bindE (S256Point_rmul v self) (\<lambda>vP.
         bindE (point_add uG vP) (\<lambda>total.
           case x total of
             None \<Rightarrow> Inl AttributeError
           | Some xe \<Rightarrow> Inr (number xe = r sig)))))"

definition sec :: "point \<Rightarrow> bool \<Rightarrow> error + byte list" where
  "sec self compressed =
     (if compressed then
        (case y self of
           None \<Rightarrow> Inl AttributeError
         | Some ye \<Rightarrow>
             (case x self of
                None \<Rightarrow> Inl AttributeError
              | Some xe \<Rightarrow>
                  bindE (to_bytes (number xe) 32) (\<lambda>xb.
                    Inr ((if number ye mod 2 = 0 then 0x02 else 0x03) # xb))))
      else
        (case x self of
           None \<Rightarrow> Inl AttributeError
         | Some xe \<Rightarrow>
             bindE (to_bytes (number xe) 32) (\<lambda>xb.
               case y self of
                 None \<Rightarrow> Inl AttributeError
               | Some ye \<Rightarrow>
                   bindE (to_bytes (number ye) 32) (\<lambda>yb.
                     Inr (0x04 # xb @ yb)))))"

definition parse :: "byte list \<Rightarrow> error + point" where
  "parse sec_bin =
     bindE (first_byte sec_bin) (\<lambda>b0.
       if b0 = 4 then
         S256Point (IntCoord (from_bytes (take 32 (drop 1 sec_bin))))
                   (IntCoord (from_bytes (take 32 (drop 33 sec_bin))))
       else
         let is_y_expected_to_be_even = (b0 = 2) in
         bindE (S256FieldElement (from_bytes (drop 1 sec_bin)) None) (\<lambda>xe.
         bindE (fe_pow xe 3) (\<lambda>x3.
         bindE (S256FieldElement B None) (\<lambda>be.
         bindE (fe_add x3 be) (\<lambda>alpha.
         bindE (sqrt_fe alpha) (\<lambda>ye.
           if is_y_expected_to_be_even then
             (if number ye mod 2 = 0 then
                S256Point (FieldCoord (Some xe)) (FieldCoord (Some ye))
              else
                bindE (S256FieldElement (P - number ye) None) (\<lambda>ye'.
                  S256Point (FieldCoord (Some xe)) (FieldCoord (Some ye'))))
           else
             (if number ye mod 2 = 0 then
                bindE (S256FieldElement (P - number ye) None) (\<lambda>ye'.
                  S256Point (FieldCoord (Some xe)) (FieldCoord (Some ye')))
              else
                S256Point (FieldCoord (Some xe)) (FieldCoord (Some ye)))))))))"

section \<open>PrivateKey\<close>

record private_key =
  secret :: int
  point :: point

definition PrivateKey :: "int \<Rightarrow> error + private_key" where
  "PrivateKey sec_int =
     bindE (S256Point_rmul sec_int G) (\<lambda>pub. Inr \<lparr>secret = sec_int, point = pub\<rparr>)"

text \<open>
  \<open>hmac.new(key, msg, sha256).digest()\<close> comes from Python's standard library; the model
  takes it as the parameter \<open>hm\<close>, a function of the key and the message.
\<close>

type_synonym hmac = "byte list \<Rightarrow> byte list \<Rightarrow> byte list"

text \<open>
  The \<open>while True\<close> loop of \<open>deterministic_k\<close>: it returns the first candidate in
  \<open>[1, N)\<close>, and nothing (\<open>None\<close>) if no candidate ever is.
\<close>

partial_function (option) k_loop :: "hmac \<Rightarrow> byte list \<Rightarrow> byte list \<Rightarrow> int option" where
  "k_loop hm k v =
     (let v1 = hm k v;
          candidate = from_bytes v1
      in if 1 \<le> candidate \<and> candidate < N then Some candidate
         else let k1 = hm k (v1 @ [0x00]);
                  v2 = hm k1 v1
              in k_loop hm k1 v2)"

text \<open>The HMAC rounds of \<open>deterministic_k\<close> on the bytes of the (possibly reduced) hash.\<close>

definition k_rounds :: "hmac \<Rightarrow> byte list \<Rightarrow> byte list \<Rightarrow> int option" where
  "k_rounds hm secret_bytes z_bytes =
     (let k0 = replicate 32 0x00;
          v0 = replicate 32 0x01;
          k1 = hm k0 (v0 @ [0x00] @ secret_bytes @ z_bytes);
          v1 = hm k1 v0;
          k2 = hm k1 (v1 @ [0x01] @ secret_bytes @ z_bytes);
          v2 = hm k2 v1
      in k_loop hm k2 v2)"

definition deterministic_k :: "hmac \<Rightarrow> private_key \<Rightarrow> int \<Rightarrow> (error + int) option" where
  "deterministic_k hm self z =
     (let z1 = (if z > N then z - N else z) in
      case to_bytes z1 32 of
        Inl e \<Rightarrow> Some (Inl e)
      | Inr z_bytes \<Rightarrow>
          (case to_bytes (secret self) 32 of
             Inl e \<Rightarrow> Some (Inl e)
           | Inr secret_bytes \<Rightarrow> map_option Inr (k_rounds hm secret_bytes z_bytes)))"

text \<open>
  \<open>N / 2\<close> is Python's true division: the double nearest to the quotient, ties to even.
  \<open>float_div\<close> is that double for positive operands whose quotient is at least \<open>2\<^sup>5\<^sup>3\<close>,
  where every double is an integer: the quotient is rounded to 53 significant bits.
  Python compares an integer with a double exactly.
\<close>

function bit_length :: "int \<Rightarrow> nat" where
  "bit_length n = (if n \<le> 0 then 0 else Suc (bit_length (n div 2)))"
  by pat_completeness auto
termination
  by (relation "measure nat") auto

declare bit_length.simps [simp del]

definition round_half_even :: "int \<Rightarrow> int \<Rightarrow> int" where
  "round_half_even n d =
     (let q = n div d; t = 2 * (n mod d)
      in if t < d then q else if d < t then q + 1 else if even q then q else q + 1)"

definition float_div :: "int \<Rightarrow> int \<Rightarrow> int" where
  "float_div n d =
     (let e = bit_length (n div d) - 53
      in round_half_even n (d * 2 ^ e) * 2 ^ e)"

text \<open>The body of \<open>sign\<close> after the nonce \<open>k\<close> has been derived.\<close>

definition sign_with :: "private_key \<Rightarrow> int \<Rightarrow> int \<Rightarrow> error + signature" where
  "sign_with self z k =
     bindE (S256Point_rmul k G) (\<lambda>R.
       case x R of
         None \<Rightarrow> Inl AttributeError
       | Some xe \<Rightarrow>
           let r1 = number xe;
               k_inv = pow_mod k (N - 2) N;
               s1 = ((z + r1 * secret self) * k_inv) mod N;
               s2 = (if s1 > float_div N 2 then N - s1 else s1)
           in Inr \<lparr>r = r1, s = s2\<rparr>)"

definition sign :: "hmac \<Rightarrow> private_key \<Rightarrow> int \<Rightarrow> (error + signature) option" where
  "sign hm self z =
     (case deterministic_k hm self z of
        None \<Rightarrow> None
      | Some (Inl e) \<Rightarrow> Some (Inl e)
      | Some (Inr k) \<Rightarrow> Some (sign_with self z k))"

section \<open>Auxiliary notions for the proofs\<close>

text \<open>
  The points \<open>S256Point\<close> produces: the curve parameters are those of secp256k1, both
  coordinates are present or both absent, and every coordinate is an element of the
  field of \<open>P\<close>.
\<close>

definition s256_fe :: "field_element option \<Rightarrow> bool" where
  "s256_fe c \<longleftrightarrow> (case c of None \<Rightarrow> True | Some e \<Rightarrow> prime e = P)"

definition s256_point :: "point \<Rightarrow> bool" where
  "s256_point p \<longleftrightarrow>
     a p = \<lparr>number = A, prime = P\<rparr> \<and> b p = \<lparr>number = B, prime = P\<rparr>
     \<and> (x p = None \<longleftrightarrow> y p = None) \<and> s256_fe (x p) \<and> s256_fe (y p)"

text \<open>
  A function of the type of an HMAC on which \<open>deterministic_k\<close> can be run by hand: it
  returns the last 32 bytes of a message longer than 32 bytes, and the key otherwise.
\<close>

definition echo_hmac :: hmac where
  "echo_hmac k m = (if 32 < length m then drop (length m - 32) m else k)"

text \<open>Prime numbers: the divisors are 1 and the number itself.\<close>

definition is_prime :: "nat \<Rightarrow> bool" where
  "is_prime p \<longleftrightarrow> 1 < p \<and> (\<forall>m. m dvd p \<longrightarrow> m = 1 \<or> m = p)"

text \<open>A result that is not the \<open>FormatError\<close> of the spec.\<close>

definition fmt_free :: "error + 'a \<Rightarrow> bool" where
  "fmt_free m \<longleftrightarrow> m \<noteq> Inl FormatError"

text \<open>
  A point of the curve with \<open>y = 1\<close>: its \<open>x\<close> is a cube root of \<open>-6\<close> modulo \<open>P\<close>.
  \<open>bytes_c2\<close> is the byte \<open>0x05\<close> followed by the 32 bytes of that \<open>x\<close>.
\<close>

definition x_c2 :: int where
  "x_c2 = 0x1FE1E5EF3FCEB5C135AB7741333CE5A6E80D68167653F6B2B24BCBCFAAAFF507"

definition bytes_c2 :: "byte list" where
  "bytes_c2 = [0x05, 0x1F, 0xE1, 0xE5, 0xEF, 0x3F, 0xCE, 0xB5, 0xC1, 0x35, 0xAB, 0x77, 0x41, 0x33, 0x3C, 0xE5, 0xA6, 0xE8, 0x0D, 0x68, 0x16, 0x76, 0x53, 0xF6, 0xB2, 0xB2, 0x4B, 0xCB, 0xCF, 0xAA, 0xAF, 0xF5, 0x07]"

section \<open>Bytes and integers\<close>

lemma length_be_digits: "length (be_digits l n) = l"
  by (induction l arbitrary: n) simp_all

lemma foldl_from_bytes_acc:
  "foldl (\<lambda>acc c. acc * 256 + uint c) acc0 bs = acc0 * 256 ^ length bs + from_bytes bs"
proof (induction bs rule: rev_induct)
  case Nil
  then show ?case by (simp add: from_bytes_def)
next
  case (snoc c bs)
  then show ?case by (simp add: from_bytes_def algebra_simps)
qed

lemma from_bytes_Nil: "from_bytes [] = 0"
  by (simp add: from_bytes_def)

lemma from_bytes_snoc: "from_bytes (bs @ [c]) = from_bytes bs * 256 + uint c"
  by (simp add: from_bytes_def)

lemma from_bytes_Cons: "from_bytes (c # bs) = uint c * 256 ^ length bs + from_bytes bs"
  using foldl_from_bytes_acc [of "uint c" bs] by (simp add: from_bytes_def)

lemma from_bytes_append:
  "from_bytes (xs @ ys) = from_bytes xs * 256 ^ length ys + from_bytes ys"
  using foldl_from_bytes_acc [of "from_bytes xs" ys] by (simp add: from_bytes_def)

lemma from_bytes_be_digits: "0 \<le> n \<Longrightarrow> from_bytes (be_digits l n) = n mod 256 ^ l"
proof (induction l arbitrary: n)
  case 0
  then show ?case by (simp add: from_bytes_Nil)
next
  case (Suc l)
  have u: "uint (word_of_int (n mod 256) :: byte) = n mod 256"
    by (simp add: uint_word_of_int take_bit_eq_mod)
  have "n mod (256 * 256 ^ l) = 256 * ((n div 256) mod 256 ^ l) + n mod 256"
    by (rule zmod_zmult2_eq) simp
  with Suc u show ?case
    by (simp add: from_bytes_snoc)
qed

lemma from_bytes_dropWhile_zero: "from_bytes (dropWhile (\<lambda>c. c = 0) bs) = from_bytes bs"
  by (induction bs) (simp_all add: from_bytes_Cons)

lemma from_bytes_to_bytes: "to_bytes n l = Inr bs \<Longrightarrow> from_bytes bs = n"
  by (auto simp: to_bytes_def from_bytes_be_digits split: if_splits)

lemma from_bytes_bounds: "0 \<le> from_bytes bs \<and> from_bytes bs < 256 ^ length bs"
proof (induction bs rule: rev_induct)
  case Nil
  then show ?case by (simp add: from_bytes_Nil)
next
  case (snoc c bs)
  have "uint c < 256" "0 \<le> uint c" using uint_bounded [of c] by simp_all
  with snoc show ?case by (simp add: from_bytes_snoc)
qed

lemma be_digits_zero: "be_digits l 0 = replicate l 0"
  by (induction l) (simp_all add: replicate_append_same)

lemma be_digits_from_bytes: "be_digits (length bs) (from_bytes bs) = bs"
proof (induction bs rule: rev_induct)
  case Nil
  then show ?case by simp
next
  case (snoc c bs)
  have c: "uint c < 256" "0 \<le> uint c" using uint_bounded [of c] by simp_all
  then have "(from_bytes bs * 256 + uint c) div 256 = from_bytes bs"
    "(from_bytes bs * 256 + uint c) mod 256 = uint c"
    by simp_all
  with snoc show ?case by (simp add: from_bytes_snoc)
qed

section \<open>DER encoding of signatures\<close>

lemma high_bit_clear: "and (c::byte) 0x80 = 0 \<Longrightarrow> c < 0x80"
proof -
  assume acc0: "and c 0x80 = 0"
  have nb: "\<not> bit c 7" using acc0 and_exp_eq_0_iff_not_bit [of c 7] by simp
  then have nbi: "\<not> bit (uint c) 7" by (simp add: bit_uint_iff)
  have "uint c = take_bit (Suc 7) (uint c)"
    using take_bit_int_eq_self_iff [of "Suc 7" "uint c"] uint_bounded [of c] by simp
  also have "\<dots> = take_bit 7 (uint c)"
    using nbi by (simp only: take_bit_Suc_from_most) simp
  finally have "uint c < 2 ^ 7"
    using take_bit_int_less_exp [of 7 "uint c"] by simp
  then show ?thesis by (simp add: word_less_alt)
qed

lemma N_less: "N < 2 ^ 256"
  by (simp add: N_def)

lemma der_int_zero: "der_int 0 = Inl IndexError"
  by (simp add: der_int_def to_bytes_def bindE_def be_digits_zero first_byte_def)

lemma der_int_ok:
  assumes "1 \<le> n" "n < 2 ^ 256"
  shows "\<exists>bin. der_int n = Inr bin \<and> bin \<noteq> [] \<and> hd bin < 0x80 \<and> length bin \<le> 33"
proof -
  define full where "full = be_digits 32 n"
  define bin where "bin = dropWhile (\<lambda>b. b = 0) full"
  have tb: "to_bytes n 32 = Inr full"
    using assms by (simp add: to_bytes_def full_def)
  have "from_bytes bin = n"
    using from_bytes_to_bytes [OF tb] by (simp add: bin_def from_bytes_dropWhile_zero)
  with assms have ne: "bin \<noteq> []" by (auto simp: from_bytes_Nil)
  then obtain b0 rest where bin: "bin = b0 # rest" by (cases bin) auto
  have "length bin \<le> length full" unfolding bin_def by (rule length_dropWhile_le)
  then have len: "length bin \<le> 32" by (simp add: full_def length_be_digits)
  have d: "der_int n = Inr (if and b0 0x80 \<noteq> 0 then 0 # bin else bin)"
    using tb bin by (simp add: der_int_def bindE_def first_byte_def bin_def [symmetric] Let_def)
  show ?thesis
  proof (cases "and b0 0x80 = 0")
    case True
    with d bin len high_bit_clear [OF True] show ?thesis by simp
  next
    case False
    with d len show ?thesis by simp
  qed
qed

lemma der_of_parts:
  assumes "der_int (r sig) = Inr rbin" "der_int (s sig) = Inr sbin"
    "length rbin \<le> 33" "length sbin \<le> 33"
  shows "der sig = Inr ([0x30, word_of_nat (4 + length rbin + length sbin), 0x02,
           word_of_nat (length rbin)] @ rbin @ [0x02, word_of_nat (length sbin)] @ sbin)"
  using assms by (simp add: der_def bindE_def bytes_of_def Let_def)

text \<open>
  C7: for a signature with \<open>r\<close> and \<open>s\<close> in \<open>[1, N)\<close>, \<open>der\<close> returns bytes that begin
  with \<open>0x30\<close>; the second byte, the declared total length, is the length of the encoding
  minus 2; the rest is the two integer fields, each a \<open>0x02\<close> marker, a length byte and a
  non-empty content whose first byte is below \<open>0x80\<close> (a stripped byte with the high bit
  clear, or the \<open>0x00\<close> pad).
\<close>

theorem der_shape:
  assumes "1 \<le> r sig" "r sig < N" "1 \<le> s sig" "s sig < N"
  shows "\<exists>bs rbin sbin. der sig = Inr bs
     \<and> bs ! 0 = 0x30
     \<and> unat (bs ! 1) = length bs - 2
     \<and> bs = [0x30, bs ! 1, 0x02, word_of_nat (length rbin)] @ rbin
             @ [0x02, word_of_nat (length sbin)] @ sbin
     \<and> rbin \<noteq> [] \<and> length rbin < 256 \<and> hd rbin < 0x80
     \<and> sbin \<noteq> [] \<and> length sbin < 256 \<and> hd sbin < 0x80"
proof -
  from assms N_less have "r sig < 2 ^ 256" "s sig < 2 ^ 256" by simp_all
  with assms der_int_ok obtain rbin sbin where
    rb: "der_int (r sig) = Inr rbin" "rbin \<noteq> []" "hd rbin < 0x80" "length rbin \<le> 33" and
    sb: "der_int (s sig) = Inr sbin" "sbin \<noteq> []" "hd sbin < 0x80" "length sbin \<le> 33"
    by metis
  define k where "k = 4 + length rbin + length sbin"
  let ?bs = "[0x30, word_of_nat k, 0x02,
           word_of_nat (length rbin)] @ rbin @ [0x02, word_of_nat (length sbin)] @ sbin"
  have d: "der sig = Inr ?bs"
    unfolding k_def using rb(1) sb(1) rb(4) sb(4) by (rule der_of_parts)
  have "k < 256" using rb(4) sb(4) by (simp add: k_def)
  then have "unat (word_of_nat k :: byte) = k"
    by (simp add: unat_of_nat)
  then have l: "unat (?bs ! 1) = length ?bs - 2" by (simp add: k_def)
  show ?thesis
    apply (rule exI [of _ ?bs], rule exI [of _ rbin], rule exI [of _ sbin])
    using d l rb sb by simp
qed

theorem der_shape_witness:
  "1 \<le> r \<lparr>r = 1, s = 1\<rparr> \<and> r \<lparr>r = 1, s = 1\<rparr> < N \<and> 1 \<le> s \<lparr>r = 1, s = 1\<rparr> \<and> s \<lparr>r = 1, s = 1\<rparr> < N
   \<and> (\<exists>bs rbin sbin. der \<lparr>r = 1, s = 1\<rparr> = Inr bs
     \<and> bs ! 0 = 0x30
     \<and> unat (bs ! 1) = length bs - 2
     \<and> bs = [0x30, bs ! 1, 0x02, word_of_nat (length rbin)] @ rbin
             @ [0x02, word_of_nat (length sbin)] @ sbin
     \<and> rbin \<noteq> [] \<and> length rbin < 256 \<and> hd rbin < 0x80
     \<and> sbin \<noteq> [] \<and> length sbin < 256 \<and> hd sbin < 0x80)"
  using der_shape [of "\<lparr>r = 1, s = 1\<rparr>"] by (simp add: N_def)

text \<open>
  C9: for a signature in the data model's range \<open>[0, N)\<close> with \<open>r = 0\<close> or \<open>s = 0\<close>,
  stripping the zero bytes leaves an empty byte string and reading its first byte raises
  \<open>IndexError\<close>: \<open>der\<close> returns no encoding.
\<close>

theorem der_zero_raises:
  assumes "0 \<le> r sig" "r sig < N" "0 \<le> s sig" "s sig < N" "r sig = 0 \<or> s sig = 0"
  shows "der sig = Inl IndexError"
proof (cases "r sig = 0")
  case True
  then show ?thesis by (simp add: der_def bindE_def der_int_zero)
next
  case False
  with assms have s0: "s sig = 0" and "1 \<le> r sig" "r sig < 2 ^ 256"
    using N_less by simp_all
  with der_int_ok obtain rbin where "der_int (r sig) = Inr rbin" "length rbin \<le> 33"
    by metis
  with s0 show ?thesis
    by (simp add: der_def bindE_def der_int_zero bytes_of_def Let_def)
qed

theorem der_zero_raises_witness:
  "0 \<le> r \<lparr>r = 5, s = 0\<rparr> \<and> r \<lparr>r = 5, s = 0\<rparr> < N \<and> 0 \<le> s \<lparr>r = 5, s = 0\<rparr> \<and> s \<lparr>r = 5, s = 0\<rparr> < N
   \<and> (r \<lparr>r = 5, s = 0\<rparr> = 0 \<or> s \<lparr>r = 5, s = 0\<rparr> = 0)
   \<and> der \<lparr>r = 5, s = 0\<rparr> = Inl IndexError"
  using der_zero_raises [of "\<lparr>r = 5, s = 0\<rparr>"] by (simp add: N_def)

text \<open>
  C10: the constructor of \<open>S256FieldElement\<close> ignores its \<open>prime\<close> argument: whatever is
  passed (\<open>None\<close> or a number), an element that is constructed has \<open>prime = P\<close> and the
  given number, and any other value of the argument constructs the same element.
\<close>

theorem S256FieldElement_prime:
  "S256FieldElement n p = Inr e \<Longrightarrow> prime e = P \<and> number e = n \<and> S256FieldElement n q = Inr e"
  by (auto simp: S256FieldElement_def FieldElement_def split: if_splits)

theorem S256FieldElement_prime_witness:
  "S256FieldElement 5 (Some 31) = Inr \<lparr>number = 5, prime = P\<rparr>
   \<and> prime \<lparr>number = 5, prime = P\<rparr> = P \<and> number \<lparr>number = 5, prime = P\<rparr> = 5
   \<and> S256FieldElement 5 None = Inr \<lparr>number = 5, prime = P\<rparr>"
proof -
  have h: "S256FieldElement 5 (Some 31) = Inr \<lparr>number = 5, prime = P\<rparr>"
    by (simp add: S256FieldElement_def FieldElement_def P_def)
  show ?thesis
    using h S256FieldElement_prime [OF h, of None] by simp
qed

section \<open>The generator\<close>

text \<open>
  \<open>G\<close> is the point \<open>S256Point(x=Gx, y=Gy)\<close> returns: the curve check of the
  constructor succeeds.
\<close>

lemma Gy_square_mod: "pow_mod Gy 2 P = 32748224938747404814623910738487752935528512903530129802856995983256684603122"
proof -
  have "Gy ^ 2 = 9217920084583157935602994580951900810186344190718383666107426471107247357458 * P + 32748224938747404814623910738487752935528512903530129802856995983256684603122"
    by (simp add: power2_eq_square Gy_def P_def)
  moreover have "(9217920084583157935602994580951900810186344190718383666107426471107247357458 * P + 32748224938747404814623910738487752935528512903530129802856995983256684603122) mod P = 32748224938747404814623910738487752935528512903530129802856995983256684603122"
    by (simp only: mod_mult_self3) (simp add: P_def)
  ultimately show ?thesis
    by (simp add: pow_mod_def del: power_numeral)
qed

lemma Gx_square: "Gx * Gx = 3032293323238629131397093708741358902059848828670291900490749632219017966501037851199852273530008094362088328117359813331037184493212192641774435470977600"
  by (simp add: Gx_def)

lemma Gx_cube_mod: "pow_mod Gx 3 P = 32748224938747404814623910738487752935528512903530129802856995983256684603115"
proof -
  have "Gx ^ 3 = Gx * Gx * Gx" by (simp add: power3_eq_cube)
  also have "\<dots> = 1442042049659660869506300006036683750029629333882594701370927246876626245108445140822412359839636311708589143988241317295940670619760105320846347035878395 * P + 32748224938747404814623910738487752935528512903530129802856995983256684603115"
    unfolding Gx_square by (simp add: Gx_def P_def)
  finally have "Gx ^ 3 = 1442042049659660869506300006036683750029629333882594701370927246876626245108445140822412359839636311708589143988241317295940670619760105320846347035878395 * P + 32748224938747404814623910738487752935528512903530129802856995983256684603115" .
  moreover have "(1442042049659660869506300006036683750029629333882594701370927246876626245108445140822412359839636311708589143988241317295940670619760105320846347035878395 * P + 32748224938747404814623910738487752935528512903530129802856995983256684603115) mod P = 32748224938747404814623910738487752935528512903530129802856995983256684603115"
    by (simp only: mod_mult_self3) (simp add: P_def)
  ultimately show ?thesis
    by (simp add: pow_mod_def del: power_numeral)
qed

lemma G_constructed: "S256Point (IntCoord Gx) (IntCoord Gy) = Inr G"
proof -
  have e: "3 mod (P - 1) = 3" "2 mod (P - 1) = 2"
    by (simp_all add: P_def)
  have rg: "\<not> Gx < 0" "\<not> P \<le> Gx" "\<not> Gy < 0" "\<not> P \<le> Gy" "\<not> P \<le> 7" "\<not> P \<le> 0"
    by (simp_all add: Gx_def Gy_def P_def)
  have sum: "(32748224938747404814623910738487752935528512903530129802856995983256684603115 + (0 * Gx) mod P) mod P = 32748224938747404814623910738487752935528512903530129802856995983256684603115"
    "(32748224938747404814623910738487752935528512903530129802856995983256684603115 + 7) mod P = 32748224938747404814623910738487752935528512903530129802856995983256684603122"
    by (simp_all add: P_def)
  have bounds: "\<not> P \<le> 32748224938747404814623910738487752935528512903530129802856995983256684603115" "\<not> P \<le> 32748224938747404814623910738487752935528512903530129802856995983256684603122" "0 < P"
    by (simp_all add: P_def)
  have oc: "on_curve \<lparr>number = Gx, prime = P\<rparr> \<lparr>number = Gy, prime = P\<rparr>
      \<lparr>number = A, prime = P\<rparr> \<lparr>number = B, prime = P\<rparr> = Inr True"
    using bounds
    by (simp add: on_curve_def fe_pow_def fe_mul_def fe_add_def FieldElement_def bindE_def e
        Gy_square_mod Gx_cube_mod A_def B_def sum fe_eq_def)
  show ?thesis
    using rg bounds(3)
    by (simp add: S256Point_def S256FieldElement_def FieldElement_def bindE_def A_def B_def
        Point_def G_def)
      (simp add: oc [unfolded A_def B_def])
qed

section \<open>The arithmetic of secp256k1 points never raises\<close>

lemma P_pos: "0 < P" by (simp add: P_def)
lemma N_pos: "0 < N" by (simp add: N_def)

lemma FieldElement_mod: "0 < p \<Longrightarrow> FieldElement (n mod p) p = Inr \<lparr>number = n mod p, prime = p\<rparr>"
  by (auto simp: FieldElement_def not_le not_less)

lemma FieldElement_pow_mod:
  "0 < p \<Longrightarrow> FieldElement (pow_mod n e p) p = Inr \<lparr>number = pow_mod n e p, prime = p\<rparr>"
  by (simp add: pow_mod_def FieldElement_mod)

lemma fe_add_P: "prime e1 = P \<Longrightarrow> prime e2 = P \<Longrightarrow> \<exists>e3. fe_add e1 e2 = Inr e3 \<and> prime e3 = P"
  by (simp add: fe_add_def FieldElement_mod P_pos)

lemma fe_sub_P: "prime e1 = P \<Longrightarrow> prime e2 = P \<Longrightarrow> \<exists>e3. fe_sub e1 e2 = Inr e3 \<and> prime e3 = P"
  by (simp add: fe_sub_def FieldElement_mod P_pos)

lemma fe_mul_P: "prime e1 = P \<Longrightarrow> prime e2 = P \<Longrightarrow> \<exists>e3. fe_mul e1 e2 = Inr e3 \<and> prime e3 = P"
  by (simp add: fe_mul_def FieldElement_mod P_pos)

lemma fe_div_P: "prime e1 = P \<Longrightarrow> prime e2 = P \<Longrightarrow> \<exists>e3. fe_div e1 e2 = Inr e3 \<and> prime e3 = P"
  by (simp add: fe_div_def FieldElement_mod P_pos)

lemma fe_pow_P: "prime e1 = P \<Longrightarrow> \<exists>e3. fe_pow e1 n = Inr e3 \<and> prime e3 = P"
  by (simp add: fe_pow_def FieldElement_pow_mod P_pos)

lemma fe_scale_P: "prime e1 = P \<Longrightarrow> \<exists>e3. fe_scale n e1 = Inr e3 \<and> prime e3 = P"
  by (simp add: fe_scale_def FieldElement_mod P_pos)

lemma bindE_Inr: "bindE (Inr v) f = f v"
  by (simp add: bindE_def)

lemma point_double_ok:
  assumes "prime x1 = P" "prime y1 = P" "s256_point p"
  shows "\<exists>t. point_double x1 y1 p = Inr t \<and> s256_point t"
proof -
  have pa: "prime (a p) = P" using assms(3) by (simp add: s256_point_def)
  obtain xx where 1: "fe_pow x1 2 = Inr xx" "prime xx = P"
    using fe_pow_P [OF assms(1)] by blast
  obtain xx3 where 2: "fe_scale 3 xx = Inr xx3" "prime xx3 = P"
    using fe_scale_P [OF 1(2)] by blast
  obtain num where 3: "fe_add xx3 (a p) = Inr num" "prime num = P"
    using fe_add_P [OF 2(2) pa] by blast
  obtain den where 4: "fe_scale 2 y1 = Inr den" "prime den = P"
    using fe_scale_P [OF assms(2)] by blast
  obtain m where 5: "fe_div num den = Inr m" "prime m = P"
    using fe_div_P [OF 3(2) 4(2)] by blast
  obtain mm where 6: "fe_pow m 2 = Inr mm" "prime mm = P"
    using fe_pow_P [OF 5(2)] by blast
  obtain x2 where 7: "fe_scale 2 x1 = Inr x2" "prime x2 = P"
    using fe_scale_P [OF assms(1)] by blast
  obtain x3 where 8: "fe_sub mm x2 = Inr x3" "prime x3 = P"
    using fe_sub_P [OF 6(2) 7(2)] by blast
  obtain dx where 9: "fe_sub x1 x3 = Inr dx" "prime dx = P"
    using fe_sub_P [OF assms(1) 8(2)] by blast
  obtain mdx where 10: "fe_mul m dx = Inr mdx" "prime mdx = P"
    using fe_mul_P [OF 5(2) 9(2)] by blast
  obtain y3 where 11: "fe_sub mdx y1 = Inr y3" "prime y3 = P"
    using fe_sub_P [OF 10(2) assms(2)] by blast
  have "point_double x1 y1 p = Inr \<lparr>x = Some x3, y = Some y3, a = a p, b = b p\<rparr>"
    unfolding point_double_def
    by (simp only: 1 2 3 4 5 6 7 8 9 10 11 bindE_Inr)
  moreover have "s256_point \<lparr>x = Some x3, y = Some y3, a = a p, b = b p\<rparr>"
    using assms(3) 8(2) 11(2) by (simp add: s256_point_def s256_fe_def)
  ultimately show ?thesis by blast
qed

lemma point_chord_ok:
  assumes "prime x1 = P" "prime y1 = P" "prime x2 = P" "prime y2 = P" "s256_point p"
  shows "\<exists>t. point_chord x1 y1 x2 y2 p = Inr t \<and> s256_point t"
proof -
  obtain num where 1: "fe_sub y2 y1 = Inr num" "prime num = P"
    using fe_sub_P [OF assms(4) assms(2)] by blast
  obtain den where 2: "fe_sub x2 x1 = Inr den" "prime den = P"
    using fe_sub_P [OF assms(3) assms(1)] by blast
  obtain m where 3: "fe_div num den = Inr m" "prime m = P"
    using fe_div_P [OF 1(2) 2(2)] by blast
  obtain mm where 4: "fe_pow m 2 = Inr mm" "prime mm = P"
    using fe_pow_P [OF 3(2)] by blast
  obtain t where 5: "fe_sub mm x1 = Inr t" "prime t = P"
    using fe_sub_P [OF 4(2) assms(1)] by blast
  obtain x3 where 6: "fe_sub t x2 = Inr x3" "prime x3 = P"
    using fe_sub_P [OF 5(2) assms(3)] by blast
  obtain dx where 7: "fe_sub x1 x3 = Inr dx" "prime dx = P"
    using fe_sub_P [OF assms(1) 6(2)] by blast
  obtain mdx where 8: "fe_mul m dx = Inr mdx" "prime mdx = P"
    using fe_mul_P [OF 3(2) 7(2)] by blast
  obtain y3 where 9: "fe_sub mdx y1 = Inr y3" "prime y3 = P"
    using fe_sub_P [OF 8(2) assms(2)] by blast
  have "point_chord x1 y1 x2 y2 p = Inr \<lparr>x = Some x3, y = Some y3, a = a p, b = b p\<rparr>"
    unfolding point_chord_def
    by (simp only: 1 2 3 4 5 6 7 8 9 bindE_Inr)
  moreover have "s256_point \<lparr>x = Some x3, y = Some y3, a = a p, b = b p\<rparr>"
    using assms(5) 6(2) 9(2) by (simp add: s256_point_def s256_fe_def)
  ultimately show ?thesis by blast
qed

lemma s256_point_infinity: "s256_point p \<Longrightarrow> s256_point \<lparr>x = None, y = None, a = a p, b = b p\<rparr>"
  by (simp add: s256_point_def s256_fe_def)

lemma point_add_ok:
  assumes "s256_point p" "s256_point q"
  shows "\<exists>t. point_add p q = Inr t \<and> s256_point t"
proof -
  have ab: "a p = a q" "b p = b q"
    using assms by (simp_all add: s256_point_def)
  show ?thesis
  proof (cases "x p")
    case None
    then have "y p = None" using assms(1) by (simp add: s256_point_def)
    with None ab assms(2) show ?thesis
      by (simp add: point_add_def split: option.splits)
  next
    case xp: (Some x1)
    then obtain y1 where yp: "y p = Some y1"
      using assms(1) by (auto simp: s256_point_def)
    show ?thesis
    proof (cases "x q")
      case None
      then have "y q = None" using assms(2) by (simp add: s256_point_def)
      with None ab assms(1) xp yp show ?thesis
        by (simp add: point_add_def split: option.splits)
    next
      case xq: (Some x2)
      then obtain y2 where yq: "y q = Some y2"
        using assms(2) by (auto simp: s256_point_def)
      have pr: "prime x1 = P" "prime y1 = P" "prime x2 = P" "prime y2 = P"
        using assms xp yp xq yq by (auto simp: s256_point_def s256_fe_def)
      have eq: "point_add p q =
          (if fe_eq x1 x2 \<and> \<not> fe_eq y1 y2 then Inr \<lparr>x = None, y = None, a = a p, b = b p\<rparr>
           else if p = q \<and> number y1 = 0 then Inr \<lparr>x = None, y = None, a = a p, b = b p\<rparr>
           else if p = q then point_double x1 y1 p
           else point_chord x1 y1 x2 y2 p)"
        by (simp add: point_add_def xp yp xq yq ab)
      show ?thesis
        unfolding eq
        using point_double_ok [OF pr(1,2) assms(1)] point_chord_ok [OF pr assms(1)]
          s256_point_infinity [OF assms(1)]
        by (simp only: split: if_split) blast
    qed
  qed
qed

lemma rmul_loop_ok:
  "s256_point cur \<Longrightarrow> s256_point res \<Longrightarrow> \<exists>t. rmul_loop n cur res = Inr t \<and> s256_point t"
proof (induction n cur res rule: rmul_loop.induct)
  case (1 coef current result)
  show ?case
  proof (cases "coef = 0")
    case True
    with 1 show ?thesis by (simp add: rmul_loop.simps)
  next
    case False
    obtain res' where r: "(if odd coef then point_add result current else Inr result) = Inr res'"
      "s256_point res'"
      using point_add_ok [OF "1.prems"(2,1)] "1.prems"(2) by (cases "odd coef") auto
    obtain cur' where c: "point_add current current = Inr cur'" "s256_point cur'"
      using point_add_ok [OF "1.prems"(1,1)] by auto
    from "1.IH" [OF False c(2) r(2)]
    show ?thesis
      using False r(1) c(1) by (subst rmul_loop.simps) (simp add: bindE_def)
  qed
qed

lemma S256Point_rmul_ok:
  "s256_point p \<Longrightarrow> \<exists>t. S256Point_rmul n p = Inr t \<and> s256_point t"
  unfolding S256Point_rmul_def point_rmul_def
  by (rule rmul_loop_ok) (simp_all add: s256_point_infinity)

lemma s256_point_G: "s256_point G"
  by (simp add: s256_point_def s256_fe_def G_def)

lemma rmul_loop_0: "rmul_loop 0 cur res = Inr res"
  by (simp add: rmul_loop.simps)

lemma rmul_one:
  assumes "s256_point p"
  shows "S256Point_rmul 1 p = Inr p"
proof -
  obtain d where d: "point_add p p = Inr d"
    using point_add_ok [OF assms assms] by auto
  have i: "point_add \<lparr>x = None, y = None, a = a p, b = b p\<rparr> p = Inr p"
    by (simp add: point_add_def split: option.splits)
  have n: "nat (1 mod N) = 1" by (simp add: N_def)
  have "rmul_loop 1 p \<lparr>x = None, y = None, a = a p, b = b p\<rparr> = Inr p"
    by (subst rmul_loop.simps) (simp add: i d bindE_def rmul_loop_0)
  then show ?thesis
    unfolding S256Point_rmul_def point_rmul_def n .
qed

section \<open>deterministic_k\<close>

lemma to_bytes_in_range: "0 \<le> n \<Longrightarrow> n < 2 ^ 256 \<Longrightarrow> to_bytes n 32 = Inr (be_digits 32 n)"
  by (simp add: to_bytes_def)

lemma to_bytes_overflow: "n < 0 \<or> 2 ^ 256 \<le> n \<Longrightarrow> to_bytes n 32 = Inl OverflowError"
  by (auto simp: to_bytes_def)

text \<open>
  C6: for \<open>N < z \<le> 2 N\<close>, \<open>deterministic_k z\<close> is \<open>deterministic_k (z - N)\<close>. For
  \<open>0 \<le> z \<le> N\<close> the HMAC rounds receive the 32 bytes of \<open>z\<close> itself; for every larger
  \<open>z\<close> they receive the 32 bytes of \<open>z - N\<close>, one subtraction and not a reduction modulo
  \<open>N\<close>, and when \<open>z - N\<close> does not fit 32 bytes (or \<open>z\<close> is negative) \<open>to_bytes\<close> raises
  \<open>OverflowError\<close>.
\<close>

theorem deterministic_k_single_subtraction:
  "(N < z \<and> z \<le> 2 * N \<longrightarrow> deterministic_k hm key z = deterministic_k hm key (z - N))
   \<and> (0 \<le> z \<and> z \<le> N \<longrightarrow>
        deterministic_k hm key z =
          (case to_bytes (secret key) 32 of
             Inl e \<Rightarrow> Some (Inl e)
           | Inr secret_bytes \<Rightarrow> map_option Inr (k_rounds hm secret_bytes (be_digits 32 z))))
   \<and> (N < z \<and> z < N + 2 ^ 256 \<longrightarrow>
        deterministic_k hm key z =
          (case to_bytes (secret key) 32 of
             Inl e \<Rightarrow> Some (Inl e)
           | Inr secret_bytes \<Rightarrow> map_option Inr (k_rounds hm secret_bytes (be_digits 32 (z - N)))))
   \<and> (z < 0 \<or> N + 2 ^ 256 \<le> z \<longrightarrow> deterministic_k hm key z = Some (Inl OverflowError))"
proof (intro conjI impI)
  assume "N < z \<and> z \<le> 2 * N"
  then show "deterministic_k hm key z = deterministic_k hm key (z - N)"
    by (simp add: deterministic_k_def)
next
  assume h: "0 \<le> z \<and> z \<le> N"
  then have "to_bytes z 32 = Inr (be_digits 32 z)"
    using N_less by (simp add: to_bytes_in_range)
  with h show "deterministic_k hm key z =
          (case to_bytes (secret key) 32 of
             Inl e \<Rightarrow> Some (Inl e)
           | Inr secret_bytes \<Rightarrow> map_option Inr (k_rounds hm secret_bytes (be_digits 32 z)))"
    by (simp add: deterministic_k_def)
next
  assume h: "N < z \<and> z < N + 2 ^ 256"
  then have "to_bytes (z - N) 32 = Inr (be_digits 32 (z - N))"
    by (simp add: to_bytes_in_range)
  with h show "deterministic_k hm key z =
          (case to_bytes (secret key) 32 of
             Inl e \<Rightarrow> Some (Inl e)
           | Inr secret_bytes \<Rightarrow> map_option Inr (k_rounds hm secret_bytes (be_digits 32 (z - N))))"
    by (simp add: deterministic_k_def)
next
  assume h: "z < 0 \<or> N + 2 ^ 256 \<le> z"
  show "deterministic_k hm key z = Some (Inl OverflowError)"
  proof (cases "z < 0")
    case True
    then have "\<not> N < z" using N_pos by simp
    with True show ?thesis
      by (simp add: deterministic_k_def to_bytes_overflow)
  next
    case False
    with h have b: "N + 2 ^ 256 \<le> z" by simp
    then have "N < z" by simp
    moreover have "to_bytes (z - N) 32 = Inl OverflowError"
      using b by (simp add: to_bytes_overflow)
    ultimately show ?thesis
      by (simp add: deterministic_k_def)
  qed
qed

lemma k_rounds_echo:
  assumes "length sb = 32" "length zb = 32" "1 \<le> from_bytes zb" "from_bytes zb < N"
  shows "k_rounds echo_hmac sb zb = Some (from_bytes zb)"
proof -
  have l: "k_loop echo_hmac zb zb = Some (from_bytes zb)"
    using assms by (subst k_loop.simps) (simp add: echo_hmac_def Let_def)
  show ?thesis
    using assms(1,2) by (simp add: k_rounds_def Let_def echo_hmac_def l)
qed

theorem deterministic_k_single_subtraction_witness:
  "N < N + 5 \<and> N + 5 \<le> 2 * N
   \<and> deterministic_k echo_hmac \<lparr>secret = 1, point = G\<rparr> (N + 5)
       = deterministic_k echo_hmac \<lparr>secret = 1, point = G\<rparr> 5
   \<and> (0::int) \<le> 5 \<and> 5 \<le> N
   \<and> deterministic_k echo_hmac \<lparr>secret = 1, point = G\<rparr> 5 = Some (Inr 5)
   \<and> N + 5 < N + 2 ^ 256
   \<and> deterministic_k echo_hmac \<lparr>secret = 1, point = G\<rparr> (N + 5) = Some (Inr 5)
   \<and> N < 2 * N + 5 \<and> 2 * N + 5 < N + 2 ^ 256
   \<and> deterministic_k echo_hmac \<lparr>secret = 1, point = G\<rparr> (2 * N + 5)
       = map_option Inr (k_rounds echo_hmac (be_digits 32 1) (be_digits 32 (N + 5)))
   \<and> N + 2 ^ 256 \<le> 3 * N
   \<and> deterministic_k echo_hmac \<lparr>secret = 1, point = G\<rparr> (3 * N) = Some (Inl OverflowError)"
proof -
  have h: "N < N + 5" "N + 5 \<le> 2 * N" "(0::int) \<le> 5" "5 \<le> N" "N + 5 < N + 2 ^ 256"
    "N + 2 ^ 256 \<le> 3 * N" "N < 2 * N + 5" "2 * N + 5 < N + 2 ^ 256"
    by (simp_all add: N_def)
  have d: "N + 5 - N = 5" "2 * N + 5 - N = N + 5" by simp_all
  have sb: "to_bytes (secret \<lparr>secret = 1, point = G\<rparr>) 32 = Inr (be_digits 32 1)"
    by (simp add: to_bytes_def)
  have "from_bytes (be_digits 32 5) = 5"
    by (simp add: from_bytes_be_digits)
  then have r: "k_rounds echo_hmac (be_digits 32 1) (be_digits 32 5) = Some 5"
    using k_rounds_echo [of "be_digits 32 1" "be_digits 32 5"] h(4)
    by (simp add: length_be_digits N_def)
  note t = deterministic_k_single_subtraction [of _ echo_hmac "\<lparr>secret = 1, point = G\<rparr>"]
  have 1: "deterministic_k echo_hmac \<lparr>secret = 1, point = G\<rparr> (N + 5)
       = deterministic_k echo_hmac \<lparr>secret = 1, point = G\<rparr> 5"
    using t [of "N + 5"] h(1,2) unfolding d by blast
  have 2: "deterministic_k echo_hmac \<lparr>secret = 1, point = G\<rparr> 5 = Some (Inr 5)"
    using t [of 5] h(3,4) unfolding sb by (simp add: r)
  have 3: "deterministic_k echo_hmac \<lparr>secret = 1, point = G\<rparr> (N + 5) = Some (Inr 5)"
    using t [of "N + 5"] h(1,5) unfolding sb d by (simp add: r)
  have 4: "deterministic_k echo_hmac \<lparr>secret = 1, point = G\<rparr> (3 * N) = Some (Inl OverflowError)"
    using t [of "3 * N"] h(6) by blast
  have 5: "deterministic_k echo_hmac \<lparr>secret = 1, point = G\<rparr> (2 * N + 5)
       = map_option Inr (k_rounds echo_hmac (be_digits 32 1) (be_digits 32 (N + 5)))"
    using t [of "2 * N + 5"] h(7,8) unfolding sb d by simp
  show ?thesis using h 1 2 3 4 5 by blast
qed

section \<open>verify\<close>

lemma pow_mod_zero: "0 < e \<Longrightarrow> pow_mod 0 e m = 0"
  by (simp add: pow_mod_def power_0_left)

lemma rmul_zero: "S256Point_rmul 0 p = Inr \<lparr>x = None, y = None, a = a p, b = b p\<rparr>"
  by (simp add: S256Point_rmul_def point_rmul_def rmul_loop.simps)

lemma verify_s_zero:
  assumes "s sig = 0" "a self = a G" "b self = b G"
  shows "verify self z sig = Inl AttributeError"
proof -
  have "pow_mod (s sig) (N - 2) N = 0"
    using assms(1) by (simp add: pow_mod_zero N_def)
  then show ?thesis
    using assms(2,3)
    by (simp add: verify_def Let_def rmul_zero bindE_def point_add_def)
qed

text \<open>
  C3: \<open>verify\<close> does not return a boolean for every well-formed input. For the signature
  \<open>(r, s) = (1, 0)\<close>, in the range \<open>[0, N)\<close> of the data model, the computed point
  \<open>u G + v self\<close> is the point at infinity, whose \<open>x\<close> is \<open>None\<close>, and reading
  \<open>total.x.number\<close> raises \<open>AttributeError\<close>.
\<close>

theorem verify_raises_at_zero_s:
  "verify G 1 \<lparr>r = 1, s = 0\<rparr> = Inl AttributeError"
  by (rule verify_s_zero) simp_all

section \<open>sign\<close>

lemma bit_length_numeral_Bit0: "bit_length (numeral (num.Bit0 n)) = Suc (bit_length (numeral n))"
  by (subst bit_length.simps) simp

lemma bit_length_numeral_Bit1: "bit_length (numeral (num.Bit1 n)) = Suc (bit_length (numeral n))"
  by (subst bit_length.simps) simp

lemma bit_length_one: "bit_length 1 = 1"
  by (simp add: bit_length.simps)

lemma bit_length_half_N: "bit_length (N div 2) = 255"
  by (simp add: N_def bit_length_numeral_Bit0 bit_length_numeral_Bit1 bit_length_one)

lemma float_div_N_2: "float_div N 2 = 2 ^ 255"
proof -
  have q: "N = (2 ^ 53 - 1) * 2 ^ 203 + (N - (2 ^ 53 - 1) * 2 ^ 203)" by simp
  have d: "N div 2 ^ 203 = 2 ^ 53 - 1" and m: "N mod 2 ^ 203 = N - (2 ^ 53 - 1) * 2 ^ 203"
    by (simp_all add: N_def)
  have "round_half_even N (2 * 2 ^ 202) = 2 ^ 53"
    using d m unfolding round_half_even_def Let_def by (simp add: N_def)
  then show ?thesis
    by (simp add: float_div_def Let_def bit_length_half_N)
qed

lemma Gx_small: "Gx < 2 ^ 255" "0 < Gx"
  by (simp_all add: Gx_def)

text \<open>
  What the body of \<open>sign\<close> returns for any nonce whose multiple of \<open>G\<close> is a finite point:
  the threshold of the low-s rule is \<open>2\<^sup>2\<^sup>5\<^sup>5\<close>.
\<close>

lemma sign_with_threshold:
  assumes "S256Point_rmul k G = Inr R" "x R = Some xe"
  shows "sign_with key z k =
    Inr \<lparr>r = number xe,
         s = (let s0 = ((z + number xe * secret key) * pow_mod k (N - 2) N) mod N
              in if 2 ^ 255 < s0 then N - s0 else s0)\<rparr>"
  using assms by (simp add: sign_with_def bindE_Inr Let_def float_div_N_2 del: power_numeral)

text \<open>
  An instance: with the secret 1, the nonce 1 and \<open>z = 2\<^sup>2\<^sup>5\<^sup>5 - Gx\<close> the body of \<open>sign\<close>
  returns \<open>s = 2\<^sup>2\<^sup>5\<^sup>5\<close>, and \<open>2 s > N\<close>.
\<close>

lemma sign_with_at_threshold:
  "sign_with \<lparr>secret = 1, point = G\<rparr> (2 ^ 255 - Gx) 1 = Inr \<lparr>r = Gx, s = 2 ^ 255\<rparr>
   \<and> N < 2 ^ 255 * 2"
proof -
  have k: "pow_mod 1 (N - 2) N = 1"
    by (simp add: pow_mod_def N_def)
  have m: "(2 ^ 255 :: int) mod N = 2 ^ 255"
    by (simp add: N_def)
  have xg: "x G = Some \<lparr>number = Gx, prime = P\<rparr>"
    by (simp add: G_def)
  have "sign_with \<lparr>secret = 1, point = G\<rparr> (2 ^ 255 - Gx) 1 = Inr \<lparr>r = Gx, s = 2 ^ 255\<rparr>"
    unfolding sign_with_def rmul_one [OF s256_point_G] bindE_Inr xg
    by (simp add: Let_def k float_div_N_2 m del: power_numeral)
  moreover have "N < 2 ^ 255 * 2" by (simp add: N_def)
  ultimately show ?thesis by blast
qed

section \<open>parse\<close>

lemma fmt_free_bindE:
  "fmt_free m \<Longrightarrow> (\<And>v. fmt_free (f v)) \<Longrightarrow> fmt_free (bindE m f)"
  by (cases m) (simp_all add: bindE_def fmt_free_def)

lemma fmt_free_Inr: "fmt_free (Inr v)"
  by (simp add: fmt_free_def)

lemma fmt_free_if: "fmt_free u \<Longrightarrow> fmt_free v \<Longrightarrow> fmt_free (if c then u else v)"
  by simp

lemma fmt_free_FieldElement: "fmt_free (FieldElement n p)"
  by (simp add: FieldElement_def fmt_free_def)

lemma fmt_free_fe_ops:
  "fmt_free (fe_add e1 e2)" "fmt_free (fe_mul e1 e2)"
  "fmt_free (fe_pow e1 n)" "fmt_free (sqrt_fe e1)"
  "fmt_free (S256FieldElement n q)"
  using fmt_free_FieldElement
  by (simp_all add: fe_add_def fe_mul_def fe_pow_def sqrt_fe_def S256FieldElement_def)
    (simp_all add: fmt_free_def)

lemma fmt_free_on_curve: "fmt_free (on_curve xe ye ae be)"
  unfolding on_curve_def
  by (intro fmt_free_bindE fmt_free_fe_ops fmt_free_Inr)

lemma fmt_free_Point: "fmt_free (Point xo yo ae be)"
proof (cases xo)
  case None
  then show ?thesis by (cases yo) (simp_all add: Point_def fmt_free_def)
next
  case (Some xe)
  show ?thesis
  proof (cases yo)
    case None
    with Some show ?thesis by (simp add: Point_def fmt_free_def)
  next
    case ye: (Some ye)
    have "fmt_free (bindE (on_curve xe ye ae be) (\<lambda>ok.
            if ok then Inr \<lparr>x = Some xe, y = Some ye, a = ae, b = be\<rparr>
            else Inl CurveMembershipError))"
      by (intro fmt_free_bindE fmt_free_on_curve) (simp add: fmt_free_def)
    with Some ye show ?thesis by (simp add: Point_def)
  qed
qed

lemma fmt_free_S256Point: "fmt_free (S256Point cx cy)"
  unfolding S256Point_def
proof (intro fmt_free_bindE fmt_free_fe_ops)
  fix ae be
  show "fmt_free (case (cx, cy) of
         (IntCoord xi, IntCoord yi) \<Rightarrow>
           bindE (S256FieldElement xi None) (\<lambda>xe.
           bindE (S256FieldElement yi None) (\<lambda>ye.
             Point (Some xe) (Some ye) ae be))
       | (IntCoord xi, FieldCoord yo) \<Rightarrow> Inl TypeError
       | (FieldCoord xo, IntCoord yi) \<Rightarrow> Inl TypeError
       | (FieldCoord xo, FieldCoord yo) \<Rightarrow> Point xo yo ae be)"
  proof (cases cx; cases cy)
    fix xi yi assume "cx = IntCoord xi" "cy = IntCoord yi"
    then show ?thesis
      by (simp, intro fmt_free_bindE fmt_free_fe_ops fmt_free_Point)
  qed (simp_all add: fmt_free_Point, simp_all add: fmt_free_def)
qed

lemma fmt_free_first_byte: "fmt_free (first_byte bs)"
  by (simp add: first_byte_def fmt_free_def split: list.splits)

lemma fmt_free_parse: "fmt_free (parse bs)"
  unfolding parse_def Let_def
  by (intro fmt_free_bindE fmt_free_first_byte fmt_free_if fmt_free_fe_ops fmt_free_S256Point)

lemma pow_mod_one: "1 < m \<Longrightarrow> pow_mod 1 e m = 1"
  by (simp add: pow_mod_def)

lemma P_gt_one: "1 < P"
  by (simp add: P_def)

lemma x_c2_range: "0 \<le> x_c2" "x_c2 < P"
  by (simp_all add: x_c2_def P_def)

lemma x_c2_square: "x_c2 * x_c2 = 207960218072492879220411528956160239607979658758126777727067504437825395019617023948239759196812419174236160254115698173594649023590463057632625400768049"
  by (simp add: x_c2_def)

lemma x_c2_cube: "x_c2 ^ 3 = 25899507534701520581795134778160311015495504093523267263232233975490419224647606583316828070306725531077228335006842549734466553100443339289797036604722 * P + (P - 6)"
proof -
  have "x_c2 ^ 3 = x_c2 * x_c2 * x_c2" by (simp add: power3_eq_cube)
  also have "\<dots> = 25899507534701520581795134778160311015495504093523267263232233975490419224647606583316828070306725531077228335006842549734466553100443339289797036604722 * P + (P - 6)"
    unfolding x_c2_square by (simp add: x_c2_def P_def)
  finally show ?thesis .
qed

lemma x_c2_cube_mod: "pow_mod x_c2 3 P = P - 6"
proof -
  have "(25899507534701520581795134778160311015495504093523267263232233975490419224647606583316828070306725531077228335006842549734466553100443339289797036604722 * P + (P - 6)) mod P = (P - 6) mod P"
    by (simp only: mod_mult_self3)
  also have "\<dots> = P - 6"
    by (rule mod_pos_pos_trivial) (simp_all add: P_def)
  finally show ?thesis
    by (simp add: pow_mod_def x_c2_cube del: power_numeral)
qed

lemma from_bytes_c2: "from_bytes (drop (Suc 0) bytes_c2) = x_c2"
  by (simp add: bytes_c2_def from_bytes_def x_c2_def)

lemma small_exponents: "3 mod (P - 1) = 3" "2 mod (P - 1) = 2"
  by (simp_all add: P_def)

lemma P_minus_6: "0 \<le> P - 6" "P - 6 < P" "(P - 6 + 7) mod P = 1" "(P - 6 + 0) mod P = P - 6"
  by (simp_all add: P_def)

lemma fe_pow_x_c2: "fe_pow \<lparr>number = x_c2, prime = P\<rparr> 3 = Inr \<lparr>number = P - 6, prime = P\<rparr>"
  using P_minus_6 by (simp add: fe_pow_def small_exponents x_c2_cube_mod FieldElement_def)

lemma fe_pow_one: "fe_pow \<lparr>number = 1, prime = P\<rparr> e = Inr \<lparr>number = 1, prime = P\<rparr>"
  using P_gt_one by (simp add: fe_pow_def pow_mod_one FieldElement_def)

lemma S256FieldElement_consts:
  "S256FieldElement A None = Inr \<lparr>number = A, prime = P\<rparr>"
  "S256FieldElement B None = Inr \<lparr>number = B, prime = P\<rparr>"
  "S256FieldElement x_c2 None = Inr \<lparr>number = x_c2, prime = P\<rparr>"
  using x_c2_range by (simp_all add: S256FieldElement_def FieldElement_def A_def B_def P_def)

lemma alpha_c2:
  "fe_add \<lparr>number = P - 6, prime = P\<rparr> \<lparr>number = B, prime = P\<rparr> = Inr \<lparr>number = 1, prime = P\<rparr>"
  using P_gt_one by (simp add: fe_add_def B_def P_minus_6 FieldElement_def)

lemma on_curve_c2:
  "on_curve \<lparr>number = x_c2, prime = P\<rparr> \<lparr>number = 1, prime = P\<rparr>
     \<lparr>number = A, prime = P\<rparr> \<lparr>number = B, prime = P\<rparr> = Inr True"
proof -
  have ax: "fe_mul \<lparr>number = A, prime = P\<rparr> \<lparr>number = x_c2, prime = P\<rparr>
      = Inr \<lparr>number = 0, prime = P\<rparr>"
    using P_gt_one by (simp add: fe_mul_def A_def FieldElement_def)
  have t: "fe_add \<lparr>number = P - 6, prime = P\<rparr> \<lparr>number = 0, prime = P\<rparr>
      = Inr \<lparr>number = P - 6, prime = P\<rparr>"
    using P_minus_6 by (simp add: fe_add_def FieldElement_def)
  show ?thesis
    unfolding on_curve_def
    by (simp only: fe_pow_one fe_pow_x_c2 ax t alpha_c2 bindE_Inr) (simp add: fe_eq_def)
qed

text \<open>
  C2, as the claim states it, fails: the byte string \<open>bytes_c2\<close> begins with \<open>0x05\<close> and
  \<open>parse\<close> decodes it to the point \<open>(x_c2, 1)\<close> of the curve.
\<close>

theorem parse_accepts_prefix_5:
  "parse bytes_c2 = Inr \<lparr>x = Some \<lparr>number = x_c2, prime = P\<rparr>,
       y = Some \<lparr>number = 1, prime = P\<rparr>,
       a = \<lparr>number = A, prime = P\<rparr>, b = \<lparr>number = B, prime = P\<rparr>\<rparr>"
proof -
  have fb: "first_byte bytes_c2 = Inr 0x05"
    by (simp add: first_byte_def bytes_c2_def)
  have sq: "sqrt_fe \<lparr>number = 1, prime = P\<rparr> = Inr \<lparr>number = 1, prime = P\<rparr>"
    by (simp add: sqrt_fe_def fe_pow_one)
  have pt: "S256Point (FieldCoord (Some \<lparr>number = x_c2, prime = P\<rparr>))
      (FieldCoord (Some \<lparr>number = 1, prime = P\<rparr>))
    = Inr \<lparr>x = Some \<lparr>number = x_c2, prime = P\<rparr>, y = Some \<lparr>number = 1, prime = P\<rparr>,
       a = \<lparr>number = A, prime = P\<rparr>, b = \<lparr>number = B, prime = P\<rparr>\<rparr>"
    by (simp add: S256Point_def S256FieldElement_consts bindE_Inr Point_def on_curve_c2)
  show ?thesis
    unfolding parse_def
    by (simp add: fb bindE_Inr from_bytes_c2 S256FieldElement_consts fe_pow_x_c2 alpha_c2 sq pt
        Let_def)
qed

text \<open>
  C2, amended: \<open>parse\<close> has no check of the leading byte and never fails with a
  \<open>FormatError\<close>; a byte string whose leading byte is neither \<open>0x02\<close> nor \<open>0x04\<close> is
  decoded exactly as if that byte were \<open>0x03\<close> (a compressed encoding with odd \<open>y\<close>).
\<close>

theorem parse_other_prefix:
  "c \<noteq> 2 \<Longrightarrow> c \<noteq> 4 \<Longrightarrow>
     parse (c # rest) = parse (3 # rest) \<and> parse (c # rest) \<noteq> Inl FormatError"
  using fmt_free_parse [of "c # rest"]
  by (simp add: fmt_free_def) (simp add: parse_def first_byte_def bindE_def)

theorem parse_other_prefix_witness:
  "(0x05 :: byte) \<noteq> 2 \<and> (0x05 :: byte) \<noteq> 4
   \<and> parse (0x05 # drop 1 bytes_c2) = parse (3 # drop 1 bytes_c2)
   \<and> parse (0x05 # drop 1 bytes_c2) \<noteq> Inl FormatError"
proof -
  have h: "(0x05 :: byte) \<noteq> 2" "(0x05 :: byte) \<noteq> 4"
    by simp_all
  from parse_other_prefix [OF h, of "drop 1 bytes_c2"] h show ?thesis
    by blast
qed

section \<open>Fermat's little theorem\<close>

text \<open>
  For a prime \<open>p\<close>, the binomial coefficients \<open>p choose k\<close> with \<open>0 < k < p\<close> are
  multiples of \<open>p\<close>, so \<open>(n + 1)\<^sup>p\<close> and \<open>n\<^sup>p + 1\<close> agree modulo \<open>p\<close>; induction on \<open>n\<close>
  gives \<open>n\<^sup>p = n\<close> modulo \<open>p\<close>, and a factor \<open>n\<close> that \<open>p\<close> does not divide cancels.
\<close>

lemma is_prime_coprime:
  assumes "is_prime p" "\<not> p dvd k"
  shows "coprime p k"
proof -
  have "gcd p k dvd p" by simp
  then have "gcd p k = 1 \<or> gcd p k = p"
    using assms(1) by (simp add: is_prime_def)
  moreover have "gcd p k \<noteq> p"
  proof
    assume "gcd p k = p"
    then have "p dvd k" by (metis gcd_dvd2)
    with assms(2) show False by simp
  qed
  ultimately show ?thesis by (simp add: coprime_iff_gcd_eq_1)
qed

lemma is_prime_dvd_mult:
  assumes "is_prime p" "p dvd k * m"
  shows "p dvd k \<or> p dvd m"
proof (cases "p dvd k")
  case True
  then show ?thesis by simp
next
  case False
  then have "coprime p k" using assms(1) by (rule is_prime_coprime [rotated])
  with assms(2) show ?thesis by (simp add: coprime_dvd_mult_right_iff)
qed

lemma is_prime_dvd_choose:
  assumes "is_prime p" "0 < k" "k < p"
  shows "p dvd (p choose k)"
proof -
  have "k * (p choose k) = p * ((p - 1) choose (k - 1))"
    using assms(2) by (rule times_binomial_minus1_eq)
  then have "p dvd k * (p choose k)" by simp
  moreover have "\<not> p dvd k"
    using assms(2,3) by (auto dest: dvd_imp_le)
  ultimately show ?thesis
    using is_prime_dvd_mult [OF assms(1)] by blast
qed

lemma freshman_dream:
  fixes n :: nat
  assumes "is_prime p"
  shows "((n + 1) ^ p) mod p = (n ^ p + 1) mod p"
proof -
  have p1: "1 < p" using assms by (simp add: is_prime_def)
  define f where "f k = (p choose k) * n ^ k" for k
  have "(n + 1) ^ p = (\<Sum>k\<le>p. f k)"
    using binomial [of n 1 p] by (simp add: f_def)
  also have "{..p} = insert 0 (insert p {0<..<p})"
    using p1 by auto
  also have "(\<Sum>k\<in>insert 0 (insert p {0<..<p}). f k) = f 0 + f p + (\<Sum>k\<in>{0<..<p}. f k)"
    using p1 by simp
  finally have e: "(n + 1) ^ p = 1 + n ^ p + (\<Sum>k\<in>{0<..<p}. f k)"
    by (simp add: f_def)
  have "p dvd (\<Sum>k\<in>{0<..<p}. f k)"
  proof (rule dvd_sum)
    fix k assume "k \<in> {0<..<p}"
    then have "p dvd (p choose k)"
      using is_prime_dvd_choose [OF assms] by simp
    then show "p dvd f k" by (simp add: f_def)
  qed
  then obtain c where "(\<Sum>k\<in>{0<..<p}. f k) = p * c" by (auto elim: dvdE)
  with e have "(n + 1) ^ p = (n ^ p + 1) + p * c" by simp
  then show ?thesis by simp
qed

lemma fermat_nat:
  fixes n :: nat
  assumes "is_prime p"
  shows "(n ^ p) mod p = n mod p"
proof (induction n)
  case 0
  have "0 < p" using assms by (simp add: is_prime_def)
  then show ?case by (simp add: power_0_left)
next
  case (Suc n)
  have "(Suc n ^ p) mod p = (n ^ p + 1) mod p"
    using freshman_dream [OF assms, of n] by simp
  also have "\<dots> = (n ^ p mod p + 1) mod p"
    by (simp add: mod_simps)
  also have "\<dots> = (n mod p + 1) mod p"
    by (simp only: Suc.IH)
  also have "\<dots> = Suc n mod p"
    by (simp add: mod_simps)
  finally show ?case .
qed

lemma fermat_little:
  fixes n :: nat
  assumes "is_prime p" "\<not> p dvd n"
  shows "(n ^ (p - 1)) mod p = 1"
proof -
  have p1: "1 < p" using assms(1) by (simp add: is_prime_def)
  have n0: "0 < n" using assms(2) by (cases n) simp_all
  then have ge: "1 \<le> n ^ (p - 1)" by simp
  have np: "n ^ p = n * n ^ (p - 1)"
    using p1 by (cases p) simp_all
  have le: "n \<le> n * n ^ (p - 1)" using ge by simp
  have "(n * n ^ (p - 1)) mod p = n mod p"
    using fermat_nat [OF assms(1), of n] by (simp only: np)
  then have "p dvd n * n ^ (p - 1) - n"
    using mod_eq_dvd_iff_nat [OF le, of p] by simp
  moreover have "n * n ^ (p - 1) - n = n * (n ^ (p - 1) - 1)"
    by (simp add: diff_mult_distrib2)
  ultimately have "p dvd n * (n ^ (p - 1) - 1)" by simp
  then have "p dvd n ^ (p - 1) - 1"
    using is_prime_dvd_mult [OF assms(1)] assms(2) by blast
  then have "(n ^ (p - 1)) mod p = 1 mod p"
    using mod_eq_dvd_iff_nat [OF ge, of p] by simp
  with p1 show ?thesis by simp
qed

lemma fermat_int:
  fixes u p :: int
  assumes "is_prime (nat p)" "0 \<le> u" "\<not> p dvd u"
  shows "(u ^ nat (p - 1)) mod p = 1"
proof -
  have p1: "1 < p" using assms(1) by (simp add: is_prime_def)
  have nd: "\<not> nat p dvd nat u"
    using assms(2,3) p1 by (simp add: nat_dvd_iff)
  have "int ((nat u ^ (nat p - 1)) mod nat p) = 1"
    using fermat_little [OF assms(1) nd] by simp
  moreover have "int ((nat u ^ (nat p - 1)) mod nat p) = (u ^ (nat p - 1)) mod p"
    using assms(2) p1 by (simp add: zmod_int)
  moreover have "nat p - 1 = nat (p - 1)"
    using p1 by simp
  ultimately show ?thesis by simp
qed

lemma square_of_root:
  fixes u p :: int
  assumes "is_prime (nat p)" "p mod 4 = 3" "0 \<le> u" "u < p"
  defines "e \<equiv> nat ((p + 1) div 4)"
  shows "(((u * u) ^ e) * ((u * u) ^ e)) mod p = (u * u) mod p"
proof (cases "u = 0")
  case True
  have "1 < p" using assms(1) by (simp add: is_prime_def)
  with assms(2) have "0 < (p + 1) div 4" by presburger
  then have "0 < e" by (simp add: e_def)
  with True show ?thesis by (simp add: power_0_left)
next
  case False
  have p1: "1 < p" using assms(1) by (simp add: is_prime_def)
  have nd: "\<not> p dvd u"
    using False assms(3,4) by (auto dest: zdvd_imp_le)
  have "4 * ((p + 1) div 4) = p + 1" using assms(2) by presburger
  then have e4: "4 * e = nat (p - 1) + 2"
    using p1 by (simp add: e_def)
  have "((u * u) ^ e) * ((u * u) ^ e) = u ^ (4 * e)"
    by (simp add: power_mult_distrib power_add [symmetric] mult_2 [symmetric] power_mult [symmetric])
  also have "\<dots> = u ^ nat (p - 1) * (u * u)"
    by (simp add: e4 power_add power2_eq_square)
  finally have "(((u * u) ^ e) * ((u * u) ^ e)) mod p = ((u ^ nat (p - 1)) mod p * (u * u)) mod p"
    by (simp add: mod_simps)
  also have "\<dots> = (u * u) mod p"
    using fermat_int [OF assms(1,3) nd] by simp
  finally show ?thesis .
qed

section \<open>Square roots in a field of prime order\<close>

text \<open>
  \<open>sqrt\<close> returns a square root of every square of a field whose order is a prime
  \<open>p\<close> with \<open>p mod 4 = 3\<close>. The field of \<open>S256FieldElement\<close> is such a field once \<open>P\<close>
  is known to be prime.
\<close>

lemma sqrt_fe_of_square:
  assumes "is_prime (nat (prime w))" "prime w mod 4 = 3"
    "0 \<le> number w" "number w < prime w" "fe_mul w w = Inr v"
  shows "\<exists>sv sq. sqrt_fe v = Inr sv \<and> fe_mul sv sv = Inr sq \<and> fe_eq sq v"
proof -
  define p where "p = prime w"
  define u where "u = number w"
  define e where "e = nat ((p + 1) div 4)"
  have p1: "1 < p" using assms(1) by (simp add: is_prime_def p_def)
  have v: "v = \<lparr>number = (u * u) mod p, prime = p\<rparr>"
    using assms(5) p1 by (simp add: fe_mul_def FieldElement_mod p_def u_def)
  have "0 \<le> (p + 1) div 4" "(p + 1) div 4 < p - 1"
    using p1 assms(2) unfolding p_def [symmetric] by presburger+
  then have ex: "((p + 1) div 4) mod (p - 1) = (p + 1) div 4"
    by (rule mod_pos_pos_trivial)
  have pw: "pow_mod ((u * u) mod p) ((p + 1) div 4) p = ((u * u) ^ e) mod p"
    by (simp add: pow_mod_def e_def power_mod)
  have sv: "sqrt_fe v = Inr \<lparr>number = ((u * u) ^ e) mod p, prime = p\<rparr>"
    using p1 by (simp add: sqrt_fe_def fe_pow_def v ex pw FieldElement_mod)
  have "(((u * u) ^ e) mod p * (((u * u) ^ e) mod p)) mod p = (((u * u) ^ e) * ((u * u) ^ e)) mod p"
    by (simp add: mod_simps)
  also have "\<dots> = (u * u) mod p"
    unfolding e_def
    using assms(1-4) unfolding p_def [symmetric] u_def [symmetric]
    by (rule square_of_root)
  finally have sq: "fe_mul \<lparr>number = ((u * u) ^ e) mod p, prime = p\<rparr>
      \<lparr>number = ((u * u) ^ e) mod p, prime = p\<rparr> = Inr \<lparr>number = (u * u) mod p, prime = p\<rparr>"
    using p1 by (simp add: fe_mul_def FieldElement_def not_less not_le)
  show ?thesis
    using sv sq by (simp add: v fe_eq_def)
qed

lemma is_prime_7: "is_prime 7"
proof -
  have "m = 1 \<or> m = 7" if "m dvd 7" for m :: nat
  proof -
    from that have "m \<le> 7" by (rule dvd_imp_le) simp
    then have "m \<in> {0, 1, 2, 3, 4, 5, 6, 7}" by auto
    with that show ?thesis by auto
  qed
  then show ?thesis by (simp add: is_prime_def)
qed

text \<open>An instance: 2 is the square of 3 in the field of order 7.\<close>

lemma sqrt_fe_of_square_at_7:
  "\<exists>sv sq. sqrt_fe \<lparr>number = 2, prime = 7\<rparr> = Inr sv \<and> fe_mul sv sv = Inr sq
     \<and> fe_eq sq \<lparr>number = 2, prime = 7\<rparr>"
proof -
  have p: "is_prime (nat (prime \<lparr>number = 3, prime = 7\<rparr>))"
    using is_prime_7 by simp
  have m: "fe_mul \<lparr>number = 3, prime = 7\<rparr> \<lparr>number = 3, prime = 7\<rparr> = Inr \<lparr>number = 2, prime = 7\<rparr>"
    by (simp add: fe_mul_def FieldElement_def)
  show ?thesis
    by (rule sqrt_fe_of_square [OF p _ _ _ m]) simp_all
qed

lemma P_mod_facts: "P mod 4 = 3" "P mod 2 = 1" "3 mod (P - 1) = 3" "2 mod (P - 1) = 2"
  by (simp_all add: P_def)

lemma sqrt_fe_number:
  fixes u p :: int
  assumes "is_prime (nat p)" "p mod 4 = 3" "0 \<le> u" "u < p"
  shows "\<exists>t. sqrt_fe \<lparr>number = (u * u) mod p, prime = p\<rparr> = Inr \<lparr>number = t, prime = p\<rparr>
     \<and> 0 \<le> t \<and> t < p \<and> (t * t) mod p = (u * u) mod p"
proof -
  define e where "e = nat ((p + 1) div 4)"
  define t where "t = ((u * u) ^ e) mod p"
  have p1: "1 < p" using assms(1) by (simp add: is_prime_def)
  have "0 \<le> (p + 1) div 4" "(p + 1) div 4 < p - 1"
    using p1 assms(2) by presburger+
  then have ex: "((p + 1) div 4) mod (p - 1) = (p + 1) div 4"
    by (rule mod_pos_pos_trivial)
  have pw: "pow_mod ((u * u) mod p) ((p + 1) div 4) p = t"
    by (simp add: pow_mod_def e_def t_def power_mod)
  have sv: "sqrt_fe \<lparr>number = (u * u) mod p, prime = p\<rparr> = Inr \<lparr>number = t, prime = p\<rparr>"
    using p1 by (simp add: sqrt_fe_def fe_pow_def ex pw FieldElement_def t_def not_less not_le)
  have "(t * t) mod p = (((u * u) ^ e) * ((u * u) ^ e)) mod p"
    by (simp add: t_def mod_simps)
  also have "\<dots> = (u * u) mod p"
    unfolding e_def using assms by (rule square_of_root)
  finally have "(t * t) mod p = (u * u) mod p" .
  moreover have "0 \<le> t" "t < p" using p1 by (simp_all add: t_def)
  ultimately show ?thesis using sv by blast
qed

section \<open>SEC round trip\<close>

text \<open>
  Decoding the uncompressed encoding of a finite point returns the point. Decoding the
  compressed encoding does so under the hypothesis that \<open>P\<close> is prime: the square root
  that \<open>parse\<close> takes of \<open>x\<^sup>3 + 7\<close> is then \<open>y\<close> or \<open>P - y\<close>, of different parity.
\<close>

lemma P_less_256: "P < 256 ^ 32"
  by (simp add: P_def)

lemma S256Point_int_fields:
  assumes "S256Point (IntCoord u) (IntCoord v) = Inr p"
  shows "0 \<le> u" "u < P" "0 \<le> v" "v < P"
    "p = \<lparr>x = Some \<lparr>number = u, prime = P\<rparr>, y = Some \<lparr>number = v, prime = P\<rparr>,
          a = \<lparr>number = A, prime = P\<rparr>, b = \<lparr>number = B, prime = P\<rparr>\<rparr>"
    "on_curve \<lparr>number = u, prime = P\<rparr> \<lparr>number = v, prime = P\<rparr>
       \<lparr>number = A, prime = P\<rparr> \<lparr>number = B, prime = P\<rparr> = Inr True"
  using assms
  by (auto simp: S256Point_def S256FieldElement_def FieldElement_def bindE_def Point_def
      split: if_splits sum.splits)

lemma take_drop_bytes:
  "length us = 32 \<Longrightarrow> take 32 (drop 1 (c # us @ vs)) = us"
  "length us = 32 \<Longrightarrow> length vs = 32 \<Longrightarrow> take 32 (drop 33 (c # us @ vs)) = vs"
  by simp_all

lemma from_bytes_be_digits_32:
  "0 \<le> n \<Longrightarrow> n < P \<Longrightarrow> from_bytes (be_digits 32 n) = n"
  using P_less_256 by (simp add: from_bytes_be_digits)

lemma to_bytes_32: "0 \<le> n \<Longrightarrow> n < P \<Longrightarrow> to_bytes n 32 = Inr (be_digits 32 n)"
  using P_less_256 by (simp add: to_bytes_def)

lemma parse_sec_uncompressed:
  assumes "S256Point (IntCoord u) (IntCoord v) = Inr p"
  shows "bindE (sec p False) parse = Inr p"
proof -
  note f = S256Point_int_fields [OF assms]
  have s: "sec p False = Inr (0x04 # be_digits 32 u @ be_digits 32 v)"
    by (simp add: sec_def f(5) to_bytes_32 [OF f(1,2)] to_bytes_32 [OF f(3,4)] bindE_Inr)
  have "parse (0x04 # be_digits 32 u @ be_digits 32 v) = S256Point (IntCoord u) (IntCoord v)"
    unfolding parse_def
    by (simp only: first_byte_def list.case bindE_Inr take_drop_bytes length_be_digits
        from_bytes_be_digits_32 [OF f(1,2)] from_bytes_be_digits_32 [OF f(3,4)]
        simp_thms if_True)
  with s assms show ?thesis by (simp add: bindE_Inr)
qed

lemma is_prime_dvd_mult_int:
  fixes p k m :: int
  assumes "is_prime (nat p)" "p dvd k * m"
  shows "p dvd k \<or> p dvd m"
proof -
  have p1: "1 < p" using assms(1) by (simp add: is_prime_def)
  have "nat p dvd nat \<bar>k * m\<bar>"
    using assms(2) p1 by (simp add: nat_dvd_iff)
  then have "nat p dvd nat \<bar>k\<bar> * nat \<bar>m\<bar>"
    by (simp add: abs_mult nat_mult_distrib)
  then have "nat p dvd nat \<bar>k\<bar> \<or> nat p dvd nat \<bar>m\<bar>"
    by (rule is_prime_dvd_mult [OF assms(1)])
  then show ?thesis
    using p1 by (simp add: nat_dvd_iff)
qed

lemma root_is_plus_or_minus:
  fixes t v p :: int
  assumes "is_prime (nat p)" "0 \<le> t" "t < p" "0 \<le> v" "v < p" "(t * t) mod p = (v * v) mod p"
  shows "t = v \<or> t + v = p"
proof -
  have "p dvd t * t - v * v"
    using assms(6) by (simp add: mod_eq_dvd_iff)
  moreover have "t * t - v * v = (t - v) * (t + v)"
    by (simp add: algebra_simps)
  ultimately have "p dvd t - v \<or> p dvd t + v"
    using is_prime_dvd_mult_int [OF assms(1)] by simp
  then show ?thesis
  proof
    assume "p dvd t - v"
    then obtain c where c: "t - v = p * c" by (auto elim: dvdE)
    have p0: "0 < p" using assms(2,3) by simp
    have "p * (- 1) < p * c" "p * c < p * 1" using assms(2-5) c by linarith+
    then have "- 1 < c" "c < 1"
      using p0 by (simp_all only: mult_less_cancel_left_pos)
    then have "c = 0" by simp
    with c show ?thesis by simp
  next
    assume "p dvd t + v"
    then obtain c where c: "t + v = p * c" by (auto elim: dvdE)
    have p0: "0 < p" using assms(2,3) by simp
    have "p * (- 1) < p * c" "p * c < p * 2" using assms(2-5) c by linarith+
    then have "- 1 < c" "c < 2"
      using p0 by (simp_all only: mult_less_cancel_left_pos)
    then have "c = 0 \<or> c = 1" by auto
    with c assms(2,4) show ?thesis by auto
  qed
qed

lemma curve_equation:
  assumes "on_curve \<lparr>number = u, prime = P\<rparr> \<lparr>number = v, prime = P\<rparr>
       \<lparr>number = A, prime = P\<rparr> \<lparr>number = B, prime = P\<rparr> = Inr True"
  shows "fe_pow \<lparr>number = u, prime = P\<rparr> 3 = Inr \<lparr>number = pow_mod u 3 P, prime = P\<rparr>"
    "fe_add \<lparr>number = pow_mod u 3 P, prime = P\<rparr> \<lparr>number = B, prime = P\<rparr>
       = Inr \<lparr>number = (v * v) mod P, prime = P\<rparr>"
proof -
  have P1: "1 < P" by (simp add: P_def)
  have c: "0 \<le> pow_mod u 3 P" "pow_mod u 3 P < P"
    using P1 by (simp_all add: pow_mod_def)
  show "fe_pow \<lparr>number = u, prime = P\<rparr> 3 = Inr \<lparr>number = pow_mod u 3 P, prime = P\<rparr>"
    using c by (simp add: fe_pow_def P_mod_facts FieldElement_def not_less not_le)
  have "pow_mod v 2 P = (pow_mod u 3 P + B) mod P"
    using assms P1 c
    by (simp add: on_curve_def fe_pow_def fe_mul_def fe_add_def FieldElement_def bindE_def
        P_mod_facts A_def fe_eq_def pow_mod_def not_less not_le split: if_splits)
  moreover have "pow_mod v 2 P = (v * v) mod P"
    by (simp add: pow_mod_def power2_eq_square)
  ultimately show "fe_add \<lparr>number = pow_mod u 3 P, prime = P\<rparr> \<lparr>number = B, prime = P\<rparr>
       = Inr \<lparr>number = (v * v) mod P, prime = P\<rparr>"
    using P1 by (simp add: fe_add_def FieldElement_def not_less not_le)
qed

lemma S256Point_field_coords:
  assumes "on_curve \<lparr>number = u, prime = P\<rparr> \<lparr>number = v, prime = P\<rparr>
       \<lparr>number = A, prime = P\<rparr> \<lparr>number = B, prime = P\<rparr> = Inr True"
  shows "S256Point (FieldCoord (Some \<lparr>number = u, prime = P\<rparr>))
           (FieldCoord (Some \<lparr>number = v, prime = P\<rparr>))
         = Inr \<lparr>x = Some \<lparr>number = u, prime = P\<rparr>, y = Some \<lparr>number = v, prime = P\<rparr>,
              a = \<lparr>number = A, prime = P\<rparr>, b = \<lparr>number = B, prime = P\<rparr>\<rparr>"
proof -
  have "\<not> P \<le> 0" "\<not> P \<le> 7" by (simp_all add: P_def)
  then have c: "S256FieldElement A None = Inr \<lparr>number = A, prime = P\<rparr>"
    "S256FieldElement B None = Inr \<lparr>number = B, prime = P\<rparr>"
    by (simp_all add: S256FieldElement_def FieldElement_def A_def B_def)
  show ?thesis
    by (simp add: S256Point_def c bindE_Inr Point_def assms)
qed

lemma parse_sec_compressed:
  assumes pr: "is_prime (nat P)" and pt: "S256Point (IntCoord u) (IntCoord v) = Inr p"
  shows "bindE (sec p True) parse = Inr p"
proof -
  note f = S256Point_int_fields [OF pt]
  note ce = curve_equation [OF f(6)]
  define c :: byte where "c = (if v mod 2 = 0 then 0x02 else 0x03)"
  have c4: "c \<noteq> 4" and c2: "c = 2 \<longleftrightarrow> v mod 2 = 0"
    by (simp_all add: c_def)
  have s: "sec p True = Inr (c # be_digits 32 u)"
    by (simp add: sec_def f(5) to_bytes_32 [OF f(1,2)] bindE_Inr c_def)
  obtain t where t: "sqrt_fe \<lparr>number = (v * v) mod P, prime = P\<rparr> = Inr \<lparr>number = t, prime = P\<rparr>"
    "0 \<le> t" "t < P" "(t * t) mod P = (v * v) mod P"
    using sqrt_fe_number [OF pr P_mod_facts(1) f(3,4)] by blast
  have xe: "S256FieldElement u None = Inr \<lparr>number = u, prime = P\<rparr>"
    using f(1,2) by (simp add: S256FieldElement_def FieldElement_def)
  have be: "S256FieldElement B None = Inr \<lparr>number = B, prime = P\<rparr>"
    by (simp add: S256FieldElement_def FieldElement_def B_def P_def)
  have body: "parse (c # be_digits 32 u) =
      (if v mod 2 = 0 then
         (if t mod 2 = 0 then
            S256Point (FieldCoord (Some \<lparr>number = u, prime = P\<rparr>))
              (FieldCoord (Some \<lparr>number = t, prime = P\<rparr>))
          else
            bindE (S256FieldElement (P - t) None) (\<lambda>ye'.
              S256Point (FieldCoord (Some \<lparr>number = u, prime = P\<rparr>)) (FieldCoord (Some ye'))))
       else
         (if t mod 2 = 0 then
            bindE (S256FieldElement (P - t) None) (\<lambda>ye'.
              S256Point (FieldCoord (Some \<lparr>number = u, prime = P\<rparr>)) (FieldCoord (Some ye')))
          else
            S256Point (FieldCoord (Some \<lparr>number = u, prime = P\<rparr>))
              (FieldCoord (Some \<lparr>number = t, prime = P\<rparr>))))"
    unfolding parse_def
    by (simp add: first_byte_def bindE_Inr c4 c2 from_bytes_be_digits_32 [OF f(1,2)] xe ce be
        t(1) Let_def)
  have good: "S256Point (FieldCoord (Some \<lparr>number = u, prime = P\<rparr>))
           (FieldCoord (Some \<lparr>number = v, prime = P\<rparr>)) = Inr p"
    using S256Point_field_coords [OF f(6)] f(5) by simp
  have cases: "t = v \<or> t + v = P"
    using root_is_plus_or_minus [OF pr t(2,3) f(3,4) t(4)] .
  have "parse (c # be_digits 32 u) = Inr p"
  proof (cases "t = v")
    case True
    then show ?thesis
      unfolding body using good by simp
  next
    case False
    with cases have sum: "t + v = P" by simp
    then have par: "(t mod 2 = 0) \<noteq> (v mod 2 = 0)"
      using P_mod_facts(2) by presburger
    have m: "S256FieldElement (P - t) None = Inr \<lparr>number = v, prime = P\<rparr>"
      using sum f(3,4) by (simp add: S256FieldElement_def FieldElement_def)
    show ?thesis
      unfolding body using par good by (auto simp: m bindE_Inr)
  qed
  with s show ?thesis by (simp add: bindE_Inr)
qed

end
